theory Spec2Isabelle
  imports Complex_Main "HOL-Library.AList" "HOL-Library.Product_Lexorder"
begin

section \<open>Data model of signal\_bot.py\<close>

text \<open>
  Python values are modelled as follows: \<open>int\<close> as \<^typ>\<open>int\<close>, \<open>str\<close> as \<^typ>\<open>string\<close>,
  \<open>Optional[t]\<close> as an option, \<open>List[t]\<close> as a list, and a \<open>dict\<close> as an association list
  with distinct keys in insertion order (\<open>d[k] = v\<close> is \<^const>\<open>AList.update\<close>, \<open>del d[k]\<close> is
  \<^const>\<open>AList.delete\<close>). A \<open>float\<close> that holds a price is modelled as a \<^typ>\<open>real\<close>: the
  program only stores and compares prices, and the comparison of finite floats is the
  comparison of the numbers they denote. The non-finite floats (NaN, infinities) have no
  counterpart in the model.
\<close>

datatype error = TypeError | ValueError | AttributeError | FetchError | SendError

text \<open>The dataclass \<open>Signal\<close>. The field \<open>id\<close> is named \<open>sig_id\<close> and \<open>note\<close> is named
  \<open>note_str\<close>, since the source names are taken in Isabelle.\<close>

record Signal =
  sig_id :: int
  chat_id :: int
  message_id :: "int option"
  symbol :: string
  side :: string
  entry :: real
  targets :: "real list"
  stop :: "real option"
  note_str :: string
  created_at :: string
  active :: bool
  hit_targets :: "int list"
  provider :: string

text \<open>
  The constructor \<open>Signal(id=.., chat_id=.., symbol=.., side=.., entry=.., targets=..,
  stop=.., note=..)\<close> as \<open>addsignal_cmd\<close> calls it: every other field takes its default.
  The default of \<open>created_at\<close> is the expression \<open>datetime.now(timezone.utc).isoformat()\<close>
  written directly in the class body, so Python evaluates it once, when the class
  statement runs at module import; the resulting string is the parameter \<open>class_created_at\<close>.
  The defaults of \<open>targets\<close> and \<open>hit_targets\<close> are \<open>field(default_factory=list)\<close>, a new
  empty list for each object.
\<close>

definition Signal_init ::
  "string \<Rightarrow> int \<Rightarrow> int \<Rightarrow> string \<Rightarrow> string \<Rightarrow> real \<Rightarrow> real list \<Rightarrow> real option \<Rightarrow> string \<Rightarrow> Signal"
where
  "Signal_init class_created_at i chat smb sd en tgts st nt =
     \<lparr> sig_id = i, chat_id = chat, message_id = None, symbol = smb, side = sd, entry = en,
       targets = tgts, stop = st, note_str = nt, created_at = class_created_at,
       active = True, hit_targets = [], provider = ''twelvedata'' \<rparr>"

subsection \<open>The persisted document\<close>

text \<open>
  The value that \<open>json.dump\<close> writes and \<open>json.load\<close> reads back. A JSON object is the
  Python \<open>dict\<close> that \<open>json.load\<close> returns, with string keys. \<open>json.dump\<close> turns the \<open>int\<close>
  keys of \<open>_signals\<close> into their decimal strings (\<^term>\<open>JObj\<close> keys are strings), and \<open>load\<close>
  turns them back with \<open>int(k)\<close>. The text encoding of the document is the library's.
\<close>

datatype json =
    JNull
  | JBool bool
  | JInt int
  | JFloat real
  | JStr string
  | JArr "json list"
  | JObj "(string \<times> json) list"

subsection \<open>\<open>str(int)\<close> and \<open>int(str)\<close>\<close>

definition digit_char :: "nat \<Rightarrow> char" where
  "digit_char d = char_of (48 + d)"

fun str_nat :: "nat \<Rightarrow> string" where
  "str_nat n = (if n < 10 then [digit_char n] else str_nat (n div 10) @ [digit_char (n mod 10)])"

declare str_nat.simps [simp del]

definition str_int :: "int \<Rightarrow> string" where
  "str_int i = (if i < 0 then CHR ''-'' # str_nat (nat (- i)) else str_nat (nat i))"

definition digit_val :: "char \<Rightarrow> nat option" where
  "digit_val c = (let n = (of_char c :: nat) in if 48 \<le> n \<and> n \<le> 57 then Some (n - 48) else None)"

fun parse_nat_acc :: "nat \<Rightarrow> string \<Rightarrow> nat option" where
  "parse_nat_acc acc [] = Some acc"
| "parse_nat_acc acc (c # cs) =
     (case digit_val c of None \<Rightarrow> None | Some d \<Rightarrow> parse_nat_acc (acc * 10 + d) cs)"

definition parse_nat :: "string \<Rightarrow> nat option" where
  "parse_nat cs = (if cs = [] then None else parse_nat_acc 0 cs)"

text \<open>
  The ASCII whitespace characters (tab, line feed, vertical tab, form feed, carriage
  return, space). Python's \<open>str\<close> methods count a few more characters as whitespace
  (the separators with codes 28 to 31 and the Unicode spaces); on them the model keeps
  the character.
\<close>

definition is_space :: "char \<Rightarrow> bool" where
  "is_space c \<longleftrightarrow> (of_char c :: nat) \<in> {9, 10, 11, 12, 13, 32}"

definition strip :: "string \<Rightarrow> string" where
  "strip s = rev (dropWhile is_space (rev (dropWhile is_space s)))"

text \<open>
  \<open>int(k)\<close> on a string: surrounding ASCII whitespace, an optional sign and decimal digits.
  Python also accepts single underscores between digits and non-ASCII digits and spaces;
  the model answers \<open>ValueError\<close> (\<^term>\<open>None\<close>) there.
\<close>

definition py_int :: "string \<Rightarrow> int option" where
  "py_int s =
     (case strip s of
        [] \<Rightarrow> None
      | c # cs \<Rightarrow>
          if c = CHR ''-'' then map_option (\<lambda>n. - int n) (parse_nat cs)
          else if c = CHR ''+'' then map_option int (parse_nat cs)
          else map_option int (parse_nat (c # cs)))"

subsection \<open>\<open>Signal.to_dict\<close> and \<open>Signal.from_dict\<close>\<close>

definition enc_opt :: "('a \<Rightarrow> json) \<Rightarrow> 'a option \<Rightarrow> json" where
  "enc_opt enc x = (case x of None \<Rightarrow> JNull | Some v \<Rightarrow> enc v)"

definition to_dict :: "Signal \<Rightarrow> json" where
  "to_dict s = JObj
     [ (''id'', JInt (sig_id s)),
       (''chat_id'', JInt (chat_id s)),
       (''message_id'', enc_opt JInt (message_id s)),
       (''symbol'', JStr (symbol s)),
       (''side'', JStr (side s)),
       (''entry'', JFloat (entry s)),
       (''targets'', JArr (map JFloat (targets s))),
       (''stop'', enc_opt JFloat (stop s)),
       (''note'', JStr (note_str s)),
       (''created_at'', JStr (created_at s)),
       (''active'', JBool (active s)),
       (''hit_targets'', JArr (map JInt (hit_targets s))),
       (''provider'', JStr (provider s)) ]"

text \<open>
  \<open>Signal(**d)\<close> stores whatever values the document holds; the typed record can only
  hold values of the declared types, so a field of another JSON type is reported as
  \<open>TypeError\<close> by the model. A JSON integer in a float field is kept as the number it
  denotes.
\<close>

fun dec_int :: "json \<Rightarrow> int option" where
  "dec_int (JInt i) = Some i"
| "dec_int _ = None"

fun dec_float :: "json \<Rightarrow> real option" where
  "dec_float (JFloat r) = Some r"
| "dec_float (JInt i) = Some (of_int i)"
| "dec_float _ = None"

fun dec_str :: "json \<Rightarrow> string option" where
  "dec_str (JStr s) = Some s"
| "dec_str _ = None"

fun dec_bool :: "json \<Rightarrow> bool option" where
  "dec_bool (JBool b) = Some b"
| "dec_bool _ = None"

definition dec_opt :: "(json \<Rightarrow> 'a option) \<Rightarrow> json \<Rightarrow> 'a option option" where
  "dec_opt dec j = (if j = JNull then Some None else map_option Some (dec j))"

fun dec_list :: "(json \<Rightarrow> 'a option) \<Rightarrow> json \<Rightarrow> 'a list option" where
  "dec_list dec (JArr js) = those (map dec js)"
| "dec_list dec _ = None"

definition field_names :: "string list" where
  "field_names = [''id'', ''chat_id'', ''message_id'', ''symbol'', ''side'', ''entry'',
     ''targets'', ''stop'', ''note'', ''created_at'', ''active'', ''hit_targets'', ''provider'']"

text \<open>A keyword argument that has a default: absent from the document, the default is taken.\<close>

definition kwarg :: "(string \<times> json) list \<Rightarrow> string \<Rightarrow> (json \<Rightarrow> 'a option) \<Rightarrow> 'a \<Rightarrow> 'a option" where
  "kwarg d k dec dflt = (case map_of d k of None \<Rightarrow> Some dflt | Some j \<Rightarrow> dec j)"

text \<open>A keyword argument without default (\<open>id\<close>, \<open>chat_id\<close>): absent, the call raises.\<close>

definition kwarg_req :: "(string \<times> json) list \<Rightarrow> string \<Rightarrow> (json \<Rightarrow> 'a option) \<Rightarrow> 'a option" where
  "kwarg_req d k dec = (case map_of d k of None \<Rightarrow> None | Some j \<Rightarrow> dec j)"

definition from_dict :: "string \<Rightarrow> json \<Rightarrow> error + Signal" where
  "from_dict class_created_at j =
     (case j of
        JObj d \<Rightarrow>
          if \<not> list_all (\<lambda>k. k \<in> set field_names) (map fst d) then Inl TypeError
          else
            (case
               Option.bind (kwarg_req d ''id'' dec_int) (\<lambda>v_id.
               Option.bind (kwarg_req d ''chat_id'' dec_int) (\<lambda>v_chat.
               Option.bind (kwarg d ''message_id'' (dec_opt dec_int) None) (\<lambda>v_msg.
               Option.bind (kwarg d ''symbol'' dec_str ''EUR/USD'') (\<lambda>v_sym.
               Option.bind (kwarg d ''side'' dec_str ''LONG'') (\<lambda>v_side.
               Option.bind (kwarg d ''entry'' dec_float 0) (\<lambda>v_entry.
               Option.bind (kwarg d ''targets'' (dec_list dec_float) []) (\<lambda>v_tgts.
               Option.bind (kwarg d ''stop'' (dec_opt dec_float) None) (\<lambda>v_stop.
               Option.bind (kwarg d ''note'' dec_str []) (\<lambda>v_note.
               Option.bind (kwarg d ''created_at'' dec_str class_created_at) (\<lambda>v_created.
               Option.bind (kwarg d ''active'' dec_bool True) (\<lambda>v_active.
               Option.bind (kwarg d ''hit_targets'' (dec_list dec_int) []) (\<lambda>v_hits.
               Option.bind (kwarg d ''provider'' dec_str ''twelvedata'') (\<lambda>v_prov.
                 Some \<lparr> sig_id = v_id, chat_id = v_chat, message_id = v_msg, symbol = v_sym,
                        side = v_side, entry = v_entry, targets = v_tgts, stop = v_stop,
                        note_str = v_note, created_at = v_created, active = v_active,
                        hit_targets = v_hits, provider = v_prov \<rparr>)))))))))))))
             of None \<Rightarrow> Inl TypeError | Some s \<Rightarrow> Inr s)
      | _ \<Rightarrow> Inl TypeError)"

section \<open>The signal store\<close>

text \<open>
  \<open>SignalStore\<close>: \<open>signals\<close> is the dict \<open>_signals\<close>, \<open>next_id\<close> is \<open>_next_id\<close>, and \<open>disk\<close>
  is the content of the file at \<open>self.path\<close>, which only the store writes (\<^term>\<open>None\<close>: the
  file does not exist). Writing the file is taken to succeed.
\<close>

record SignalStore =
  signals :: "(int \<times> Signal) list"
  next_id :: int
  disk :: "json option"

text \<open>The document that \<open>save\<close> builds and dumps.\<close>

definition save_doc :: "SignalStore \<Rightarrow> json" where
  "save_doc st = JObj
     [ (''next_id'', JInt (next_id st)),
       (''signals'', JObj (map (\<lambda>(sid, s). (str_int sid, to_dict s)) (signals st))) ]"

definition store_save :: "SignalStore \<Rightarrow> SignalStore" where
  "store_save st = st\<lparr>disk := Some (save_doc st)\<rparr>"

text \<open>The dict comprehension \<open>{int(k): Signal.from_dict(v) for k, v in ...items()}\<close>: the
  first key or record that does not convert raises, a later equal key overwrites.\<close>

fun load_signals :: "string \<Rightarrow> (string \<times> json) list \<Rightarrow> (int \<times> Signal) list \<Rightarrow> error + (int \<times> Signal) list" where
  "load_signals cca [] acc = Inr acc"
| "load_signals cca ((k, v) # kvs) acc =
     (case py_int k of
        None \<Rightarrow> Inl ValueError
      | Some sid \<Rightarrow>
          (case from_dict cca v of
             Inl e \<Rightarrow> Inl e
           | Inr s \<Rightarrow> load_signals cca kvs (AList.update sid s acc)))"

text \<open>
  \<open>load\<close>: a missing file leaves the store as it is. \<open>data.get\<close> on a document that is
  not an object raises \<open>AttributeError\<close>, as does \<open>.items()\<close> on a \<open>signals\<close> entry that is
  not one. Python keeps a \<open>next_id\<close> of any type; the typed model reports one that is not
  an integer as \<open>TypeError\<close>.
\<close>

definition store_load :: "string \<Rightarrow> SignalStore \<Rightarrow> error + SignalStore" where
  "store_load cca st =
     (case disk st of
        None \<Rightarrow> Inr st
      | Some data \<Rightarrow>
          (case data of
             JObj d \<Rightarrow>
               (case (case map_of d ''next_id'' of None \<Rightarrow> Some 1 | Some j \<Rightarrow> dec_int j) of
                  None \<Rightarrow> Inl TypeError
                | Some n \<Rightarrow>
                    (case (case map_of d ''signals'' of None \<Rightarrow> JObj [] | Some j \<Rightarrow> j) of
                       JObj kvs \<Rightarrow>
                         (case load_signals cca kvs [] of
                            Inl e \<Rightarrow> Inl e
                          | Inr sigs \<Rightarrow> Inr (st\<lparr>next_id := n, signals := sigs\<rparr>))
                     | _ \<Rightarrow> Inl AttributeError))
           | _ \<Rightarrow> Inl AttributeError))"

text \<open>\<open>SignalStore(path)\<close>, where \<open>f\<close> is what the file at \<open>path\<close> holds.\<close>

definition store_init :: "string \<Rightarrow> json option \<Rightarrow> error + SignalStore" where
  "store_init cca f = store_load cca \<lparr> signals = [], next_id = 1, disk = f \<rparr>"

definition store_add :: "Signal \<Rightarrow> SignalStore \<Rightarrow> Signal \<times> SignalStore" where
  "store_add s st =
     (let s1 = s\<lparr>sig_id := next_id st\<rparr>;
          st1 = st\<lparr>signals := AList.update (sig_id s1) s1 (signals st)\<rparr>;
          st2 = st1\<lparr>next_id := next_id st1 + 1\<rparr>
      in (s1, store_save st2))"

definition store_get :: "SignalStore \<Rightarrow> int \<Rightarrow> Signal option" where
  "store_get st sid = map_of (signals st) sid"

definition store_all :: "SignalStore \<Rightarrow> Signal list" where
  "store_all st = sort_key (\<lambda>x. (\<not> active x, sig_id x)) (map snd (signals st))"

definition store_delete :: "int \<Rightarrow> SignalStore \<Rightarrow> bool \<times> SignalStore" where
  "store_delete sid st =
     (if sid \<in> fst ` set (signals st)
      then (True, store_save (st\<lparr>signals := AList.delete sid (signals st)\<rparr>))
      else (False, st))"

definition store_update :: "Signal \<Rightarrow> SignalStore \<Rightarrow> SignalStore" where
  "store_update s st = store_save (st\<lparr>signals := AList.update (sig_id s) s (signals st)\<rparr>)"

text \<open>A sequence of calls of the store's mutating methods; \<open>run_ops\<close> returns the ids that
  the \<open>add\<close> calls assigned, in call order, and the final store.\<close>

datatype store_op = Add Signal | Update Signal | Delete int

fun run_ops :: "store_op list \<Rightarrow> SignalStore \<Rightarrow> int list \<times> SignalStore" where
  "run_ops [] st = ([], st)"
| "run_ops (Add s # ops) st =
     (let (s1, st1) = store_add s st; (ids, st2) = run_ops ops st1 in (sig_id s1 # ids, st2))"
| "run_ops (Update s # ops) st = run_ops ops (store_update s st)"
| "run_ops (Delete sid # ops) st = run_ops ops (snd (store_delete sid st))"

section \<open>The command handler \<open>addsignal_cmd\<close>\<close>

subsection \<open>String operations\<close>

text \<open>\<open>str.upper\<close> and \<open>str.lower\<close> on ASCII letters; other characters are kept.\<close>

definition py_upper :: "string \<Rightarrow> string" where
  "py_upper s =
     map (\<lambda>c. let n = (of_char c :: nat) in if 97 \<le> n \<and> n \<le> 122 then char_of (n - 32) else c) s"

definition py_lower :: "string \<Rightarrow> string" where
  "py_lower s =
     map (\<lambda>c. let n = (of_char c :: nat) in if 65 \<le> n \<and> n \<le> 90 then char_of (n + 32) else c) s"

text \<open>\<open>text.split()\<close>: the maximal runs of characters that are not whitespace.\<close>

fun split_ws :: "string \<Rightarrow> string \<Rightarrow> string list" where
  "split_ws cur [] = (if cur = [] then [] else [cur])"
| "split_ws cur (c # cs) =
     (if is_space c then (if cur = [] then split_ws [] cs else cur # split_ws [] cs)
      else split_ws (cur @ [c]) cs)"

definition py_split :: "string \<Rightarrow> string list" where
  "py_split s = split_ws [] s"

text \<open>\<open>text.split(sep)\<close> for a one-character separator: empty pieces are kept.\<close>

fun split_sep :: "char \<Rightarrow> string \<Rightarrow> string \<Rightarrow> string list" where
  "split_sep sep cur [] = [cur]"
| "split_sep sep cur (c # cs) =
     (if c = sep then cur # split_sep sep [] cs else split_sep sep (cur @ [c]) cs)"

definition split_on :: "char \<Rightarrow> string \<Rightarrow> string list" where
  "split_on sep s = split_sep sep [] s"

text \<open>\<open>text.partition(" ")[2]\<close>: what follows the first space, empty when there is none.\<close>

definition partition_tail :: "char \<Rightarrow> string \<Rightarrow> string" where
  "partition_tail sep s = (case dropWhile (\<lambda>c. c \<noteq> sep) s of [] \<Rightarrow> [] | _ # r \<Rightarrow> r)"

definition parse_kv_args :: "string \<Rightarrow> (string \<times> string) list" where
  "parse_kv_args text =
     fold (\<lambda>p kv.
             if CHR ''='' \<in> set p
             then (let k = takeWhile (\<lambda>c. c \<noteq> CHR ''='') p;
                       v = partition_tail CHR ''='' p
                   in AList.update (py_lower (strip k)) (strip v) kv)
             else kv)
          (py_split text) []"

definition kv_get :: "(string \<times> string) list \<Rightarrow> string \<Rightarrow> string \<Rightarrow> string" where
  "kv_get kv k dflt = (case map_of kv k of None \<Rightarrow> dflt | Some v \<Rightarrow> v)"

subsection \<open>The handler\<close>

text \<open>
  The configuration read at import: \<open>ADMIN_USER_IDS\<close>, \<open>CHANNEL_ID\<close>, and the string that
  the class body of \<open>Signal\<close> computed as the default of \<open>created_at\<close>.
\<close>

record config =
  ADMIN_USER_IDS :: "int list"
  CHANNEL_ID :: int
  class_created_at :: string

text \<open>The incoming update: the user's id and the text of the message, when present.\<close>

record update_msg =
  effective_user :: "int option"
  message :: "string option"

definition is_admin :: "config \<Rightarrow> int \<Rightarrow> bool" where
  "is_admin cfg user_id \<longleftrightarrow> user_id \<in> set (ADMIN_USER_IDS cfg)"

definition format_error_text :: string where
  "format_error_text = ''Format error. Example:'' @ [CHR 0x0A] @
     ''/addsignal symbol=EUR/USD side=LONG entry=1.1050 targets=1.1100,1.1150 stop=1.1000 note=Breakout''"

text \<open>
  The \<open>try\<close> block of \<open>addsignal_cmd\<close>. \<open>pfloat\<close> is the builtin \<open>float\<close> on strings
  (\<^term>\<open>None\<close>: \<open>ValueError\<close>). Every exception of the block reaches the same \<open>except\<close>
  clause, so the block's result is \<^term>\<open>None\<close> when any of its statements raises.
\<close>

definition parse_signal_args ::
  "(string \<Rightarrow> real option) \<Rightarrow> (string \<times> string) list \<Rightarrow>
     (string \<times> string \<times> real \<times> real list \<times> real option \<times> string) option"
where
  "parse_signal_args pfloat kv =
     (let v_symbol = py_upper (kv_get kv ''symbol'' ''EUR/USD'');
          v_side = py_upper (kv_get kv ''side'' ''LONG'')
      in
        (case (case map_of kv ''entry'' of
                 None \<Rightarrow> Some 0
               | Some v \<Rightarrow> if v = [] then Some 0 else pfloat v) of
           None \<Rightarrow> None
         | Some v_entry \<Rightarrow>
             (case those (map pfloat (filter (\<lambda>x. x \<noteq> []) (split_on CHR '','' (kv_get kv ''targets'' [])))) of
                None \<Rightarrow> None
              | Some v_targets \<Rightarrow>
                  (case (case map_of kv ''stop'' of
                           None \<Rightarrow> Some None
                         | Some v \<Rightarrow> map_option Some (pfloat v)) of
                     None \<Rightarrow> None
                   | Some v_stop \<Rightarrow>
                       (let v_note = kv_get kv ''note'' []
                        in if v_side \<noteq> ''LONG'' \<and> v_side \<noteq> ''SHORT'' then None
                           else Some (v_symbol, v_side, v_entry, v_targets, v_stop, v_note))))))"

text \<open>
  \<open>addsignal_cmd\<close>. \<open>post\<close> is \<open>post_signal_to_channel\<close>, the send to the channel: it
  returns the id of the posted message or raises. The result is the exception that
  leaves the handler, if any, the texts given to \<open>reply_text\<close>, and the store.
\<close>

definition addsignal_cmd ::
  "config \<Rightarrow> (string \<Rightarrow> real option) \<Rightarrow> (Signal \<Rightarrow> error + int) \<Rightarrow> update_msg \<Rightarrow> SignalStore \<Rightarrow>
     error option \<times> string list \<times> SignalStore"
where
  "addsignal_cmd cfg pfloat post upd st =
     (case effective_user upd of
        None \<Rightarrow> (None, [], st)
      | Some uid \<Rightarrow>
          (case message upd of
             None \<Rightarrow> (None, [], st)
           | Some text \<Rightarrow>
               if \<not> is_admin cfg uid then (None, [''Access denied.''], st)
               else
                 (let args_text = partition_tail CHR '' '' text;
                      kv = parse_kv_args args_text
                  in case parse_signal_args pfloat kv of
                       None \<Rightarrow> (None, [format_error_text], st)
                     | Some (v_symbol, v_side, v_entry, v_targets, v_stop, v_note) \<Rightarrow>
                         (let s = Signal_init (class_created_at cfg) 0 (CHANNEL_ID cfg)
                                    v_symbol v_side v_entry v_targets v_stop v_note
                          in case store_add s st of
                               (s1, st1) \<Rightarrow>
                                 (case post s1 of
                                    Inl e \<Rightarrow> (Some e, [], st1)
                                  | Inr mid \<Rightarrow>
                                      (let s2 = s1\<lparr>message_id := Some mid\<rparr>;
                                           st2 = store_update s2 st1
                                       in (None,
                                           [''Signal #'' @ str_int (sig_id s2)
                                              @ '' created and posted to channel.''],
                                           st2)))))))"

section \<open>The price monitor\<close>

text \<open>
  The monitor is modelled on its own: one cycle runs from its snapshot \<open>STORE.all()\<close> to
  its end without a command handler changing the store in between. (In the program the
  handlers may run while the monitor awaits a fetch or a delivery.)
\<close>

text \<open>
  A call of \<open>notify_update(app.bot, s, text)\<close>: the signal passed and the values that the
  text is formatted from (for a target the index \<open>idx\<close>, shown as \<open>idx + 1\<close> in the text, the
  target and the live price; for the stop loss the stop and the price).
\<close>

datatype event =
    TargetHitEv Signal int real real
  | StopHitEv Signal real real

fun ev_signal :: "event \<Rightarrow> Signal" where
  "ev_signal (TargetHitEv s idx tgt price) = s"
| "ev_signal (StopHitEv s sp price) = s"

fun ev_target :: "event \<Rightarrow> int option" where
  "ev_target (TargetHitEv s idx tgt price) = Some idx"
| "ev_target (StopHitEv s sp price) = None"

text \<open>
  The outside world of the monitor: \<open>td_price n sym\<close> is what the \<open>n\<close>-th call of
  \<open>td_get_price\<close> returns when asked for \<open>sym\<close> (\<^term>\<open>None\<close>: the call raises, on an HTTP
  error, a timeout or a reply without price), and \<open>send_ok n\<close> tells whether the \<open>n\<close>-th
  call of \<open>notify_update\<close> returns (its first \<open>send_message\<close> is outside any \<open>try\<close>).
\<close>

record env =
  td_price :: "nat \<Rightarrow> string \<Rightarrow> real option"
  send_ok :: "nat \<Rightarrow> bool"

text \<open>
  The state that the monitor works on: the global \<open>STORE\<close>, the calls of \<open>notify_update\<close> made so
  far (oldest first), the number of calls of \<open>td_get_price\<close> made so far, and the
  exceptions given to \<open>logging.exception\<close>.
\<close>

record mon =
  STORE :: SignalStore
  events :: "event list"
  fetches :: nat
  logged :: "error list"

definition td_get_price :: "env \<Rightarrow> string \<Rightarrow> mon \<Rightarrow> (error + real) \<times> mon" where
  "td_get_price e smb m =
     ((case td_price e (fetches m) smb of None \<Rightarrow> Inl FetchError | Some p \<Rightarrow> Inr p),
      m\<lparr>fetches := fetches m + 1\<rparr>)"

definition notify_update :: "env \<Rightarrow> event \<Rightarrow> mon \<Rightarrow> error option \<times> mon" where
  "notify_update e ev m =
     ((if send_ok e (length (events m)) then None else Some SendError),
      m\<lparr>events := events m @ [ev]\<rparr>)"

text \<open>The flag \<open>hit\<close> of the target loop, and \<open>stop_hit\<close> of the stop-loss block.\<close>

definition target_hit :: "string \<Rightarrow> real \<Rightarrow> real \<Rightarrow> bool" where
  "target_hit sd price tgt =
     (let hit = False;
          hit = (if sd = ''LONG'' \<and> price \<ge> tgt then True else hit);
          hit = (if sd = ''SHORT'' \<and> price \<le> tgt then True else hit)
      in hit)"

definition stop_hit :: "string \<Rightarrow> real \<Rightarrow> real \<Rightarrow> bool" where
  "stop_hit sd price sp =
     (let hit = False;
          hit = (if sd = ''LONG'' \<and> price \<le> sp then True else hit);
          hit = (if sd = ''SHORT'' \<and> price \<ge> sp then True else hit)
      in hit)"

definition py_enumerate :: "'a list \<Rightarrow> (int \<times> 'a) list" where
  "py_enumerate xs = zip (map int [0..<length xs]) xs"

text \<open>
  The loop \<open>for idx, tgt in enumerate(s.targets)\<close>, on the pairs still to visit. \<open>s\<close> is the
  object of the store being worked on: \<open>append\<close> changes it in place, and \<open>STORE.update(s)\<close>
  files it under \<open>s.id\<close> and saves. An exception of \<open>notify_update\<close> leaves the loop.
\<close>

fun targets_loop ::
  "env \<Rightarrow> real \<Rightarrow> (int \<times> real) list \<Rightarrow> Signal \<Rightarrow> mon \<Rightarrow> error option \<times> Signal \<times> mon" where
  "targets_loop e price [] s m = (None, s, m)"
| "targets_loop e price ((idx, tgt) # rest) s m =
     (if idx \<in> set (hit_targets s) then targets_loop e price rest s m
      else if target_hit (side s) price tgt then
        (let s1 = s\<lparr>hit_targets := hit_targets s @ [idx]\<rparr>;
             m1 = m\<lparr>STORE := store_update s1 (STORE m)\<rparr>
         in case notify_update e (TargetHitEv s1 idx tgt price) m1 of
              (Some err, m2) \<Rightarrow> (Some err, s1, m2)
            | (None, m2) \<Rightarrow> targets_loop e price rest s1 m2)
      else targets_loop e price rest s m)"

text \<open>The block \<open>if s.stop is not None and s.active\<close>.\<close>

definition stop_check :: "env \<Rightarrow> real \<Rightarrow> Signal \<Rightarrow> mon \<Rightarrow> error option \<times> Signal \<times> mon" where
  "stop_check e price s m =
     (case stop s of
        None \<Rightarrow> (None, s, m)
      | Some sp \<Rightarrow>
          if active s then
            (if stop_hit (side s) price sp then
               (let s1 = s\<lparr>active := False\<rparr>;
                    m1 = m\<lparr>STORE := store_update s1 (STORE m)\<rparr>
                in case notify_update e (StopHitEv s1 sp price) m1 of
                     (r, m2) \<Rightarrow> (r, s1, m2))
             else (None, s, m))
          else (None, s, m))"

text \<open>The body of \<open>for s in STORE.all()\<close> for one signal.\<close>

definition monitor_signal :: "env \<Rightarrow> Signal \<Rightarrow> mon \<Rightarrow> error option \<times> mon" where
  "monitor_signal e s m =
     (if \<not> active s then (None, m)
      else
        (case td_get_price e (symbol s) m of
           (Inl err, m1) \<Rightarrow> (Some err, m1)
         | (Inr price, m1) \<Rightarrow>
             (case targets_loop e price (py_enumerate (targets s)) s m1 of
                (Some err, s1, m2) \<Rightarrow> (Some err, m2)
              | (None, s1, m2) \<Rightarrow>
                  (case stop_check e price s1 m2 of (r, s2, m3) \<Rightarrow> (r, m3)))))"

text \<open>The \<open>for\<close> loop: the first exception leaves it.\<close>

fun for_signals :: "env \<Rightarrow> Signal list \<Rightarrow> mon \<Rightarrow> error option \<times> mon" where
  "for_signals e [] m = (None, m)"
| "for_signals e (s # ss) m =
     (case monitor_signal e s m of
        (Some err, m1) \<Rightarrow> (Some err, m1)
      | (None, m1) \<Rightarrow> for_signals e ss m1)"

text \<open>
  One iteration of \<open>while True\<close>: the \<open>try\<close> encloses the whole \<open>for\<close> loop, and the
  \<open>except Exception\<close> clause logs and sleeps. The sleeps are not modelled.
\<close>

definition monitor_cycle :: "env \<Rightarrow> mon \<Rightarrow> mon" where
  "monitor_cycle e m =
     (case for_signals e (store_all (STORE m)) m of
        (None, m1) \<Rightarrow> m1
      | (Some err, m1) \<Rightarrow> m1\<lparr>logged := logged m1 @ [err]\<rparr>)"

text \<open>The state after \<open>n\<close> iterations of the loop of \<open>monitor_prices\<close>, which never returns.\<close>

fun monitor_prices :: "nat \<Rightarrow> env \<Rightarrow> mon \<Rightarrow> mon" where
  "monitor_prices 0 e m = m"
| "monitor_prices (Suc n) e m = monitor_prices n e (monitor_cycle e m)"

section \<open>Vocabulary of the monitor's properties\<close>

text \<open>
  The indices that one complete run of the target loop appends, in order: those of the
  pairs whose index is not yet in \<open>hit_targets\<close> and whose target the price has reached.
\<close>

definition new_hits :: "(int \<times> real) list \<Rightarrow> Signal \<Rightarrow> real \<Rightarrow> int list" where
  "new_hits its s price =
     map fst (filter (\<lambda>(idx, tgt). idx \<notin> set (hit_targets s) \<and> target_hit (side s) price tgt) its)"

text \<open>
  The calls of \<open>notify_update\<close> made for the signal with id \<open>k\<close>, oldest first: \<open>Some idx\<close> is
  a target-hit notification for index \<open>idx\<close>, \<^term>\<open>None\<close> a stop-loss notification.
\<close>

definition keyed :: "int \<Rightarrow> event list \<Rightarrow> int option list" where
  "keyed k evs = map ev_target (filter (\<lambda>ev. sig_id (ev_signal ev) = k) evs)"

text \<open>
  What the body of the \<open>for\<close> loop does to the monitor state for an active signal \<open>s\<close> whose
  price was fetched: it appends the indices \<open>ys\<close> to \<open>hit_targets\<close>, clears \<open>active\<close> when
  \<open>stp\<close>, files the record when anything changed, and makes one call of \<open>notify_update\<close>
  for each. Either a target notification raised, and \<open>ys\<close> is the part of the hits done
  so far, or the target loop was completed and the stop-loss block was run.
\<close>

definition sig_step :: "Signal \<Rightarrow> real \<Rightarrow> mon \<Rightarrow> error option \<Rightarrow> mon \<Rightarrow> int list \<Rightarrow> bool \<Rightarrow> bool" where
  "sig_step s price m r m' ys stp \<longleftrightarrow>
     (\<exists>evs s'. s' = s\<lparr>hit_targets := hit_targets s @ ys, active := \<not> stp\<rparr>
        \<and> m' = m\<lparr>fetches := fetches m + 1,
                  STORE := (if ys = [] \<and> \<not> stp then STORE m else store_update s' (STORE m)),
                  events := events m @ evs\<rparr>
        \<and> map ev_target evs = map Some ys @ (if stp then [None] else [])
        \<and> (\<forall>ev \<in> set evs. sig_id (ev_signal ev) = sig_id s)
        \<and> ((r = Some SendError \<and> \<not> stp \<and> ys \<noteq> []
               \<and> (\<exists>zs. new_hits (py_enumerate (targets s)) s price = ys @ zs))
           \<or> (ys = new_hits (py_enumerate (targets s)) s price
               \<and> (stp \<longleftrightarrow> (\<exists>sp. stop s = Some sp \<and> stop_hit (side s) price sp))
               \<and> (\<not> stp \<longrightarrow> r = None))))"

text \<open>
  The state of \<open>_signals\<close> that the program maintains: the keys are distinct (it is a
  \<open>dict\<close>) and every record is filed under its own \<open>id\<close>. Under it the record that the
  monitor changes in place is the one that \<open>STORE.update\<close> files, so the model, which
  copies records, and the program, which shares one object, agree.
\<close>

definition store_wf :: "SignalStore \<Rightarrow> bool" where
  "store_wf st \<longleftrightarrow> distinct (map fst (signals st)) \<and> list_all (\<lambda>(k, s). sig_id s = k) (signals st)"

text \<open>
  What any number of monitor steps may do to the signal filed under \<open>k\<close>: append indices
  to \<open>hit_targets\<close>, none twice and none that was there, clear \<open>active\<close>, and notify once
  for each; an inactive signal is left alone.
\<close>

definition sig_progress :: "int \<Rightarrow> mon \<Rightarrow> mon \<Rightarrow> bool" where
  "sig_progress k m m' \<longleftrightarrow>
     (case store_get (STORE m) k of
        None \<Rightarrow> store_get (STORE m') k = None \<and> keyed k (events m') = keyed k (events m)
      | Some s \<Rightarrow>
          (\<exists>ys stp.
             store_get (STORE m') k
               = Some (s\<lparr>hit_targets := hit_targets s @ ys, active := active s \<and> \<not> stp\<rparr>)
             \<and> distinct ys \<and> set ys \<inter> set (hit_targets s) = {}
             \<and> keyed k (events m') = keyed k (events m) @ map Some ys @ (if stp then [None] else [])
             \<and> (\<not> active s \<longrightarrow> ys = [] \<and> \<not> stp)))"

section \<open>Concrete values used to instantiate the theorems\<close>

definition sig_long :: Signal where
  "sig_long = Signal_init ''2024-01-01T00:00:00+00:00'' 0 (- 100) ''EUR/USD'' ''LONG'' 1.05
     [1.10, 1.12] None []"

definition sig_short :: Signal where
  "sig_short = Signal_init ''2024-01-01T00:00:00+00:00'' 0 (- 100) ''GBP/USD'' ''SHORT'' 1.15
     [1.10] (Some 1.20) []"

definition store0 :: SignalStore where
  "store0 = \<lparr>signals = [], next_id = 1, disk = None\<rparr>"

definition store1 :: SignalStore where
  "store1 = snd (store_add sig_long store0)"

definition store2 :: SignalStore where
  "store2 = snd (store_add sig_short store0)"

text \<open>Prices 1.11, then 1.13; every notification is delivered.\<close>

definition env_up :: env where
  "env_up = \<lparr> td_price = (\<lambda>n smb. if n = 0 then Some 1.11 else Some 1.13), send_ok = (\<lambda>n. True) \<rparr>"

text \<open>Prices 1.21, then 1.25; every notification is delivered.\<close>

definition env_sl :: env where
  "env_sl = \<lparr> td_price = (\<lambda>n smb. if n = 0 then Some 1.21 else Some 1.25), send_ok = (\<lambda>n. True) \<rparr>"

definition mon1 :: mon where
  "mon1 = \<lparr> STORE = store1, events = [], fetches = 0, logged = [] \<rparr>"

definition mon2 :: mon where
  "mon2 = \<lparr> STORE = store2, events = [], fetches = 0, logged = [] \<rparr>"

definition sig1 :: Signal where
  "sig1 = sig_long\<lparr>sig_id := 1\<rparr>"

definition sig_short1 :: Signal where
  "sig_short1 = sig_short\<lparr>sig_id := 1\<rparr>"

definition sig_bad :: Signal where
  "sig_bad = Signal_init ''2024-01-01T00:00:00+00:00'' 0 (- 100) ''BAD'' ''LONG'' 1 [2] None []"

text \<open>A store with three active signals: EUR/USD (id 1), BAD (id 2), GBP/USD (id 3).\<close>

definition store3 :: SignalStore where
  "store3 = snd (store_add sig_short (snd (store_add sig_bad (snd (store_add sig_long store0)))))"

definition mon3 :: mon where
  "mon3 = \<lparr> STORE = store3, events = [], fetches = 0, logged = [] \<rparr>"

text \<open>The provider knows EUR/USD (1.11) and GBP/USD (1.05); any other symbol fails.\<close>

definition env_fail :: env where
  "env_fail = \<lparr> td_price = (\<lambda>n smb. if smb = ''EUR/USD'' then Some 1.11
                                     else if smb = ''GBP/USD'' then Some 1.05 else None),
                send_ok = (\<lambda>n. True) \<rparr>"

definition cfg0 :: config where
  "cfg0 = \<lparr> ADMIN_USER_IDS = [8121424156], CHANNEL_ID = - 1002733217001,
            class_created_at = ''2024-01-01T00:00:00+00:00'' \<rparr>"

text \<open>A finite part of the builtin \<open>float\<close>: four decimal literals; any other string is rejected.\<close>

definition float_tbl :: "string \<Rightarrow> real option" where
  "float_tbl = map_of [(''1.1050'', 1.105), (''1.1100'', 1.11), (''1.1150'', 1.115), (''1.1000'', 1.1)]"

definition post0 :: "Signal \<Rightarrow> error + int" where
  "post0 = (\<lambda>s. Inr 55)"

definition upd_no_targets :: update_msg where
  "upd_no_targets = \<lparr> effective_user = Some 8121424156, message = Some ''/addsignal side=LONG'' \<rparr>"

definition upd_bad_stop :: update_msg where
  "upd_bad_stop = \<lparr> effective_user = Some 8121424156,
       message = Some ''/addsignal symbol=eur/usd side=long entry=1.1050 targets=1.1100,1.1150 stop=abc'' \<rparr>"

section \<open>Properties of the store\<close>

lemma next_id_store_add: "next_id (snd (store_add s st)) = next_id st + 1"
  by (simp add: store_add_def store_save_def Let_def)

lemma sig_id_store_add: "sig_id (fst (store_add s st)) = next_id st"
  by (simp add: store_add_def Let_def)

lemma next_id_store_update: "next_id (store_update s st) = next_id st"
  by (simp add: store_update_def store_save_def)

lemma next_id_store_delete: "next_id (snd (store_delete sid st)) = next_id st"
  by (simp add: store_delete_def store_save_def)

lemma run_ops_bounds:
  "next_id st \<le> next_id (snd (run_ops ops st)) \<and>
   (\<forall>i \<in> set (fst (run_ops ops st)). next_id st \<le> i \<and> i < next_id (snd (run_ops ops st)))"
proof (induction ops arbitrary: st)
  case Nil
  then show ?case by simp
next
  case (Cons x ops)
  show ?case
  proof (cases x)
    case (Add s)
    obtain s1 st1 where a: "store_add s st = (s1, st1)" by (cases "store_add s st")
    have n: "next_id st1 = next_id st + 1" and i: "sig_id s1 = next_id st"
      using next_id_store_add [of s st] sig_id_store_add [of s st] a by simp_all
    show ?thesis using Cons.IH [of st1] Add a n i
      by (auto simp: split_beta)
  next
    case (Update s)
    then show ?thesis using Cons.IH [of "store_update s st"] by (simp add: next_id_store_update)
  next
    case (Delete sid)
    then show ?thesis using Cons.IH [of "snd (store_delete sid st)"] by (simp add: next_id_store_delete)
  qed
qed

lemma run_ops_increasing: "sorted_wrt (<) (fst (run_ops ops st))"
proof (induction ops arbitrary: st)
  case Nil
  then show ?case by simp
next
  case (Cons x ops)
  show ?case
  proof (cases x)
    case (Add s)
    obtain s1 st1 where a: "store_add s st = (s1, st1)" by (cases "store_add s st")
    have n: "next_id st1 = next_id st + 1" and i: "sig_id s1 = next_id st"
      using next_id_store_add [of s st] sig_id_store_add [of s st] a by simp_all
    show ?thesis using Cons.IH [of st1] run_ops_bounds [of st1 ops] Add a n i
      by (auto simp: split_beta)
  next
    case (Update s)
    then show ?thesis using Cons.IH by simp
  next
    case (Delete sid)
    then show ?thesis using Cons.IH by simp
  qed
qed

lemma store_init_fresh: "store_init cca None = Inr \<lparr>signals = [], next_id = 1, disk = None\<rparr>"
  by (simp add: store_init_def store_load_def)

text \<open>
  C3. The ids that \<open>add\<close> assigns are strictly increasing along any sequence of \<open>add\<close>,
  \<open>update\<close> and \<open>delete\<close> calls, from any store: each is at least the counter the sequence
  started with and below the counter it ends with, and the counter never decreases. So no
  id is assigned twice, whatever was deleted in between. \<open>delete\<close> leaves the counter as it
  is. On a store created without a file, three adds give 1, 2, 3, and after deleting 2 the
  next add gives 4.
\<close>

theorem add_ids_strictly_increasing:
  "sorted_wrt (<) (fst (run_ops ops st))
   \<and> (\<forall>i \<in> set (fst (run_ops ops st)). next_id st \<le> i \<and> i < next_id (snd (run_ops ops st)))
   \<and> next_id st \<le> next_id (snd (run_ops ops st))
   \<and> next_id (snd (store_delete sid st)) = next_id st
   \<and> (\<exists>st0. store_init cca None = Inr st0
        \<and> fst (run_ops [Add a, Add b, Add c, Delete 2, Add d] st0) = [1, 2, 3, 4])"
proof -
  have "fst (run_ops [Add a, Add b, Add c, Delete 2, Add d]
          \<lparr>signals = [], next_id = 1, disk = None\<rparr>) = [1, 2, 3, 4]"
    by (simp add: store_add_def store_delete_def store_save_def Let_def)
  then show ?thesis
    using run_ops_increasing [of ops st] run_ops_bounds [of st ops]
      next_id_store_delete [of sid st] store_init_fresh [of cca]
    by simp
qed

theorem add_ids_strictly_increasing_witness:
  "fst (run_ops [Add sig_long, Delete 1, Add sig_short] store0) = [1, 2]
   \<and> sorted_wrt (<) (fst (run_ops [Add sig_long, Delete 1, Add sig_short] store0))
   \<and> next_id store0 \<le> next_id (snd (run_ops [Add sig_long, Delete 1, Add sig_short] store0))
   \<and> next_id (snd (store_delete 1 store0)) = next_id store0"
proof -
  have e: "fst (run_ops [Add sig_long, Delete 1, Add sig_short] store0) = [1, 2]"
    by (simp add: store0_def store_add_def store_delete_def store_save_def Let_def)
  show ?thesis
    using e add_ids_strictly_increasing
      [of "[Add sig_long, Delete 1, Add sig_short]" store0 1 "[]" sig_long sig_long sig_long sig_long]
    by blast
qed

text \<open>
  C8. Deleting an id that the store does not hold returns \<open>False\<close> and returns the store as
  it was: the counter, every record and the file. Deleting an id that it holds returns
  \<open>True\<close>.
\<close>

theorem delete_absent_unchanged:
  "(store_get st sid = None \<longrightarrow> store_delete sid st = (False, st))
   \<and> (store_get st sid \<noteq> None \<longrightarrow> fst (store_delete sid st))"
  by (simp add: store_get_def store_delete_def map_of_eq_None_iff)

theorem delete_absent_unchanged_witness:
  "store_get (snd (store_add sig_long store0)) 7 = None
   \<and> store_delete 7 (snd (store_add sig_long store0)) = (False, snd (store_add sig_long store0))
   \<and> store_get (snd (store_add sig_long store0)) 1 \<noteq> None
   \<and> fst (store_delete 1 (snd (store_add sig_long store0)))"
  using delete_absent_unchanged [of "snd (store_add sig_long store0)" 7]
    delete_absent_unchanged [of "snd (store_add sig_long store0)" 1]
  by (simp add: store_get_def store0_def store_add_def store_save_def Let_def)

text \<open>
  C10. \<open>update(s)\<close> stores \<open>s\<close> under \<open>s.id\<close> whether or not the store holds that id, and
  writes the file: afterwards \<open>get(s.id)\<close> is \<open>s\<close>, the file holds the document of the new
  store, and the counter and every other id are as before. In particular, after
  \<open>delete(s.id)\<close> a later \<open>update(s)\<close> puts the record back.
\<close>

theorem update_is_upsert:
  "store_get (store_update s st) (sig_id s) = Some s
   \<and> (\<forall>k. k \<noteq> sig_id s \<longrightarrow> store_get (store_update s st) k = store_get st k)
   \<and> next_id (store_update s st) = next_id st
   \<and> disk (store_update s st) = Some (save_doc (store_update s st))
   \<and> store_get (snd (store_delete (sig_id s) st)) (sig_id s) = None
   \<and> store_get (store_update s (snd (store_delete (sig_id s) st))) (sig_id s) = Some s"
  by (simp add: store_get_def store_update_def store_delete_def store_save_def save_doc_def
      update_conv' delete_conv' map_of_eq_None_iff delete_notin_dom)

theorem update_is_upsert_witness:
  "store_get store0 (sig_id sig_long) = None
   \<and> store_get (store_update sig_long store0) (sig_id sig_long) = Some sig_long
   \<and> store_get (store_update sig_long store0) 5 = store_get store0 5
   \<and> next_id (store_update sig_long store0) = 1"
  using update_is_upsert [of sig_long store0]
  by (simp add: store_get_def store0_def sig_long_def Signal_init_def)

section \<open>The persisted document read back\<close>

lemma digit_val_digit_char: "d < 10 \<Longrightarrow> digit_val (digit_char d) = Some d"
  by (simp add: digit_val_def digit_char_def Let_def)

lemma parse_nat_acc_snoc:
  "parse_nat_acc a (xs @ [c]) =
     (case parse_nat_acc a xs of None \<Rightarrow> None
      | Some m \<Rightarrow> (case digit_val c of None \<Rightarrow> None | Some d \<Rightarrow> Some (m * 10 + d)))"
  by (induction xs arbitrary: a) (auto split: option.splits)

lemma parse_nat_acc_str_nat: "parse_nat_acc 0 (str_nat n) = Some n"
proof (induction n rule: str_nat.induct)
  case (1 n)
  show ?case
  proof (cases "n < 10")
    case True
    then show ?thesis by (simp add: str_nat.simps [of n] digit_val_digit_char)
  next
    case False
    then show ?thesis using 1
      by (simp add: str_nat.simps [of n] parse_nat_acc_snoc digit_val_digit_char)
  qed
qed

lemma str_nat_nonempty: "str_nat n \<noteq> []"
  by (simp add: str_nat.simps [of n])

lemma of_char_digit_char: "d < 10 \<Longrightarrow> (of_char (digit_char d) :: nat) = 48 + d"
  by (simp add: digit_char_def)

lemma digit_char_not_space: "d < 10 \<Longrightarrow> \<not> is_space (digit_char d)"
  unfolding is_space_def by (simp only: of_char_digit_char) simp

lemma digit_char_not_sign:
  assumes "d < 10" shows "digit_char d \<noteq> CHR ''-''" and "digit_char d \<noteq> CHR ''+''"
proof -
  have e: "(of_char (digit_char d) :: nat) = 48 + d" using assms by (rule of_char_digit_char)
  show "digit_char d \<noteq> CHR ''-''"
  proof
    assume "digit_char d = CHR ''-''"
    then have "(of_char (digit_char d) :: nat) = of_char CHR ''-''" by (rule arg_cong)
    then show False using e by simp
  qed
  show "digit_char d \<noteq> CHR ''+''"
  proof
    assume "digit_char d = CHR ''+''"
    then have "(of_char (digit_char d) :: nat) = of_char CHR ''+''" by (rule arg_cong)
    then show False using e by simp
  qed
qed

lemma str_nat_digits: "c \<in> set (str_nat n) \<Longrightarrow> \<exists>d < 10. c = digit_char d"
proof (induction n rule: str_nat.induct)
  case (1 n)
  show ?case
  proof (cases "n < 10")
    case True
    then have "str_nat n = [digit_char n]" by (simp add: str_nat.simps [of n])
    then show ?thesis using 1(2) True by auto
  next
    case False
    then have e: "str_nat n = str_nat (n div 10) @ [digit_char (n mod 10)]"
      by (simp add: str_nat.simps [of n])
    from 1(2) e have "c \<in> set (str_nat (n div 10)) \<or> c = digit_char (n mod 10)" by auto
    then show ?thesis
    proof
      assume "c \<in> set (str_nat (n div 10))"
      then show ?thesis using 1(1) False by blast
    next
      assume "c = digit_char (n mod 10)"
      moreover have "n mod 10 < 10" by simp
      ultimately show ?thesis by blast
    qed
  qed
qed

lemma strip_id:
  assumes "xs \<noteq> []" "\<not> is_space (hd xs)" "\<not> is_space (last xs)"
  shows "strip xs = xs"
proof -
  have a: "dropWhile is_space xs = xs" using assms by (simp add: dropWhile_eq_self_iff)
  have b: "dropWhile is_space (rev xs) = rev xs"
    using assms by (simp add: dropWhile_eq_self_iff hd_rev)
  show ?thesis by (simp add: strip_def a b)
qed

lemma str_nat_hd: "\<exists>d < 10. hd (str_nat n) = digit_char d"
  using str_nat_digits [of "hd (str_nat n)" n] str_nat_nonempty [of n] by simp

lemma str_nat_last: "\<exists>d < 10. last (str_nat n) = digit_char d"
  using str_nat_digits [of "last (str_nat n)" n] str_nat_nonempty [of n] by simp

lemma strip_str_nat: "strip (str_nat n) = str_nat n"
  using str_nat_hd [of n] str_nat_last [of n] str_nat_nonempty [of n]
  by (auto intro!: strip_id simp: digit_char_not_space)

lemma py_int_str_nat: "py_int (str_nat n) = Some (int n)"
proof -
  obtain c cs where e: "str_nat n = c # cs" using str_nat_nonempty [of n] by (cases "str_nat n") auto
  obtain d where d: "d < 10" "c = digit_char d" using str_nat_hd [of n] e by auto
  have "parse_nat (c # cs) = Some n" using parse_nat_acc_str_nat [of n] e by (simp add: parse_nat_def)
  moreover have "strip (c # cs) = c # cs" using strip_str_nat [of n] e by simp
  ultimately show ?thesis using d digit_char_not_sign [of d] e
    by (simp add: py_int_def)
qed

lemma strip_minus: "strip (CHR ''-'' # str_nat n) = CHR ''-'' # str_nat n"
proof (rule strip_id)
  show "CHR ''-'' # str_nat n \<noteq> []" by simp
  show "\<not> is_space (hd (CHR ''-'' # str_nat n))" by (simp add: is_space_def)
  obtain d where "d < 10" "last (str_nat n) = digit_char d" using str_nat_last [of n] by blast
  then show "\<not> is_space (last (CHR ''-'' # str_nat n))"
    using str_nat_nonempty [of n] by (simp add: digit_char_not_space)
qed

lemma py_int_str_int: "py_int (str_int i) = Some i"
proof (cases "i < 0")
  case True
  have "parse_nat (str_nat (nat (- i))) = Some (nat (- i))"
    using parse_nat_acc_str_nat [of "nat (- i)"] str_nat_nonempty [of "nat (- i)"]
    by (simp add: parse_nat_def)
  then show ?thesis using True by (simp add: py_int_def str_int_def strip_minus)
next
  case False
  then show ?thesis by (simp add: str_int_def py_int_str_nat)
qed


lemma those_dec_float: "those (map (dec_float \<circ> JFloat) xs) = Some xs"
  by (induction xs) simp_all

lemma those_dec_int: "those (map (dec_int \<circ> JInt) xs) = Some xs"
  by (induction xs) simp_all

lemma dec_opt_int: "dec_opt dec_int (enc_opt JInt x) = Some x"
  by (cases x) (simp_all add: dec_opt_def enc_opt_def)

lemma dec_opt_float: "dec_opt dec_float (enc_opt JFloat x) = Some x"
  by (cases x) (simp_all add: dec_opt_def enc_opt_def)

lemma from_dict_to_dict: "from_dict cca (to_dict s) = Inr s"
  by (simp add: from_dict_def to_dict_def field_names_def kwarg_def kwarg_req_def
      those_dec_float those_dec_int dec_opt_int dec_opt_float)

lemma update_fresh: "k \<notin> fst ` set al \<Longrightarrow> AList.update k v al = al @ [(k, v)]"
  by (induction al) auto

lemma load_signals_saved:
  "distinct (map fst xs) \<Longrightarrow> fst ` set xs \<inter> fst ` set acc = {} \<Longrightarrow>
   load_signals cca (map (\<lambda>(sid, s). (str_int sid, to_dict s)) xs) acc = Inr (acc @ xs)"
proof (induction xs arbitrary: acc)
  case Nil
  then show ?case by simp
next
  case (Cons x xs)
  obtain k s where x: "x = (k, s)" by (cases x)
  have fresh: "k \<notin> fst ` set acc" using Cons.prems x by auto
  have d: "distinct (map fst xs)" and nk: "k \<notin> fst ` set xs" using Cons.prems x by auto
  have disj: "fst ` set xs \<inter> fst ` set (acc @ [(k, s)]) = {}" using Cons.prems x nk by auto
  show ?case
    using Cons.IH [OF d disj] x
    by (simp add: py_int_str_int from_dict_to_dict update_fresh [OF fresh])
qed

lemma store_load_saved:
  assumes "distinct (map fst (signals st))"
  shows "store_load cca (st0\<lparr>disk := Some (save_doc st)\<rparr>)
           = Inr (st0\<lparr>disk := Some (save_doc st), next_id := next_id st, signals := signals st\<rparr>)"
  using load_signals_saved [OF assms, of "[]" cca]
  by (simp add: store_load_def save_doc_def)

lemma store_init_saved:
  "distinct (map fst (signals st)) \<Longrightarrow> store_init cca (disk (store_save st)) = Inr (store_save st)"
  using store_load_saved [of st cca "\<lparr>signals = [], next_id = 1, disk = None\<rparr>"]
  by (simp add: store_init_def store_save_def)

lemma distinct_store_add: "distinct (map fst (signals st)) \<Longrightarrow> distinct (map fst (signals (snd (store_add s st))))"
  by (simp add: store_add_def store_save_def Let_def distinct_update)

lemma distinct_store_update: "distinct (map fst (signals st)) \<Longrightarrow> distinct (map fst (signals (store_update s st)))"
  by (simp add: store_update_def store_save_def distinct_update)

lemma distinct_store_delete: "distinct (map fst (signals st)) \<Longrightarrow> distinct (map fst (signals (snd (store_delete k st))))"
  by (simp add: store_delete_def store_save_def distinct_delete)

lemma disk_store_save: "disk (store_save st) = Some (save_doc (store_save st))"
  by (simp add: store_save_def save_doc_def)

lemma run_ops_persisted:
  "distinct (map fst (signals st)) \<Longrightarrow> disk st = Some (save_doc st) \<or> (st = store0 ) \<Longrightarrow>
   distinct (map fst (signals (snd (run_ops ops st))))
   \<and> (disk (snd (run_ops ops st)) = Some (save_doc (snd (run_ops ops st))) \<or> snd (run_ops ops st) = store0)"
proof (induction ops arbitrary: st)
  case Nil
  then show ?case by simp
next
  case (Cons x ops)
  show ?case
  proof (cases x)
    case (Add s)
    obtain s1 st1 where a: "store_add s st = (s1, st1)" by (cases "store_add s st")
    have "distinct (map fst (signals st1))" using distinct_store_add [OF Cons.prems(1), of s] a by simp
    moreover have "disk st1 = Some (save_doc st1)" using a disk_store_save 
      by (auto simp: store_add_def Let_def)
    ultimately show ?thesis using Cons.IH [of st1] Add a by (simp add: split_beta)
  next
    case (Update s)
    have "distinct (map fst (signals (store_update s st)))" using distinct_store_update [OF Cons.prems(1)] .
    moreover have "disk (store_update s st) = Some (save_doc (store_update s st))"
      by (simp add: store_update_def disk_store_save)
    ultimately show ?thesis using Cons.IH [of "store_update s st"] Update by simp
  next
    case (Delete k)
    have "distinct (map fst (signals (snd (store_delete k st))))" using distinct_store_delete [OF Cons.prems(1)] .
    moreover have "disk (snd (store_delete k st)) = Some (save_doc (snd (store_delete k st))) \<or> snd (store_delete k st) = store0"
      using Cons.prems(2) by (auto simp add: store_delete_def disk_store_save)
    ultimately show ?thesis using Cons.IH [of "snd (store_delete k st)"] Delete by simp
  qed
qed

text \<open>
  C6. For a store reached from the empty store by any sequence of \<open>add\<close>, \<open>update\<close> and
  \<open>delete\<close> calls, \<open>save\<close> followed by the construction of a new store on the same file
  (which calls \<open>load\<close>) gives the same dict of signals, in the same order, the same
  counter, and the file as written. The store read back does not depend on the
  \<open>created_at\<close> default of the process that reads it. Since every mutating call ends with
  \<open>save\<close>, a new store built on the file that the sequence left behind is the store itself.
\<close>

theorem save_load_roundtrip:
  assumes "st = snd (run_ops ops store0)"
  shows "store_init cca (disk (store_save st)) = Inr (store_save st)
         \<and> signals (store_save st) = signals st
         \<and> next_id (store_save st) = next_id st
         \<and> store_init cca (disk st) = Inr st"
proof -
  have d0: "distinct (map fst (signals store0))" by (simp add: store0_def)
  have inv: "distinct (map fst (signals st))"
    "disk st = Some (save_doc st) \<or> st = store0"
    using run_ops_persisted [OF d0, of ops] assms by simp_all
  have a: "store_init cca (disk (store_save st)) = Inr (store_save st)"
    using inv(1) by (rule store_init_saved)
  have b: "store_init cca (disk st) = Inr st"
  proof (cases "st = store0")
    case True
    then show ?thesis using store_init_fresh [of cca] by (simp add: store0_def)
  next
    case False
    then have "store_save st = st" using inv(2) by (simp add: store_save_def)
    then show ?thesis using a by simp
  qed
  show ?thesis using a b by (simp add: store_save_def)
qed

theorem save_load_roundtrip_witness:
  "map fst (signals (snd (run_ops [Add sig_long, Add sig_short, Delete 1] store0))) = [2]
   \<and> next_id (snd (run_ops [Add sig_long, Add sig_short, Delete 1] store0)) = 3
   \<and> store_init ''2025-06-01T00:00:00+00:00''
        (disk (snd (run_ops [Add sig_long, Add sig_short, Delete 1] store0)))
       = Inr (snd (run_ops [Add sig_long, Add sig_short, Delete 1] store0))"
proof -
  have e: "map fst (signals (snd (run_ops [Add sig_long, Add sig_short, Delete 1] store0))) = [2]
     \<and> next_id (snd (run_ops [Add sig_long, Add sig_short, Delete 1] store0)) = 3"
    by (simp add: store0_def store_add_def store_delete_def store_save_def Let_def)
  show ?thesis
    using e save_load_roundtrip [OF refl, of "''2025-06-01T00:00:00+00:00''"
        "[Add sig_long, Add sig_short, Delete 1]"]
    by blast
qed

section \<open>Properties of the price monitor\<close>

lemma store_update_collapse:
  "sig_id s1 = sig_id s0 \<Longrightarrow> store_update s1 (store_update s0 st) = store_update s1 st"
  by (simp add: store_update_def store_save_def save_doc_def)

lemma new_hits_Cons:
  "new_hits ((idx, tgt) # rest) s price =
     (if idx \<notin> set (hit_targets s) \<and> target_hit (side s) price tgt
      then idx # new_hits rest s price else new_hits rest s price)"
  by (simp add: new_hits_def)

lemma new_hits_append_fresh:
  "idx \<notin> fst ` set rest \<Longrightarrow>
   new_hits rest (s\<lparr>hit_targets := hit_targets s @ [idx]\<rparr>) price = new_hits rest s price"
proof -
  assume f: "idx \<notin> fst ` set rest"
  have "filter (\<lambda>(i, tgt). i \<notin> set (hit_targets s @ [idx]) \<and> target_hit (side s) price tgt) rest
      = filter (\<lambda>(i, tgt). i \<notin> set (hit_targets s) \<and> target_hit (side s) price tgt) rest"
    using f by (intro filter_cong) (auto simp: image_iff)
  then show ?thesis by (simp add: new_hits_def)
qed

lemma targets_loop_effect:
  "distinct (map fst its) \<Longrightarrow> targets_loop e price its s m = (r, s1, m2) \<Longrightarrow>
   \<exists>ys zs evs. new_hits its s price = ys @ zs \<and> (r = None \<longrightarrow> zs = [])
      \<and> s1 = s\<lparr>hit_targets := hit_targets s @ ys\<rparr>
      \<and> m2 = m\<lparr>STORE := (if ys = [] then STORE m else store_update s1 (STORE m)),
                events := events m @ evs\<rparr>
      \<and> map ev_target evs = map Some ys
      \<and> (\<forall>ev \<in> set evs. sig_id (ev_signal ev) = sig_id s)
      \<and> (r = None \<or> (r = Some SendError \<and> ys \<noteq> []))"
proof (induction its arbitrary: s m)
  case Nil
  then show ?case by (simp add: new_hits_def)
next
  case (Cons it rest)
  obtain idx tgt where it: "it = (idx, tgt)" by (cases it)
  have d: "distinct (map fst rest)" and fresh: "idx \<notin> fst ` set rest"
    using Cons.prems(1) it by auto
  show ?case
  proof (cases "idx \<notin> set (hit_targets s) \<and> target_hit (side s) price tgt")
    case False
    then have rec: "targets_loop e price rest s m = (r, s1, m2)"
      using Cons.prems(2) it by (auto split: if_splits)
    have nh: "new_hits (it # rest) s price = new_hits rest s price"
      using False it by (simp add: new_hits_Cons)
    from Cons.IH [OF d rec] show ?thesis unfolding nh .
  next
    case True
    define s' where "s' = s\<lparr>hit_targets := hit_targets s @ [idx]\<rparr>"
    define m1 where "m1 = m\<lparr>STORE := store_update s' (STORE m)\<rparr>"
    define ev where "ev = TargetHitEv s' idx tgt price"
    define m' where "m' = m1\<lparr>events := events m1 @ [ev]\<rparr>"
    have nh: "new_hits (it # rest) s price = idx # new_hits rest s price"
      using True it by (simp add: new_hits_Cons)
    show ?thesis
    proof (cases "send_ok e (length (events m1))")
      case False
      then have "targets_loop e price (it # rest) s m = (Some SendError, s', m')"
        using it True by (simp add: s'_def m1_def ev_def m'_def notify_update_def Let_def)
      then have res: "r = Some SendError" "s1 = s'" "m2 = m'"
        using Cons.prems(2) by simp_all
      have "new_hits (it # rest) s price = [idx] @ new_hits rest s price" using nh by simp
      moreover have "s1 = s\<lparr>hit_targets := hit_targets s @ [idx]\<rparr>" using res s'_def by simp
      moreover have "m2 = m\<lparr>STORE := (if [idx] = [] then STORE m else store_update s1 (STORE m)),
                events := events m @ [ev]\<rparr>"
        using res by (simp add: m'_def m1_def)
      moreover have "map ev_target [ev] = map Some [idx]" by (simp add: ev_def)
      moreover have "\<forall>x \<in> set [ev]. sig_id (ev_signal x) = sig_id s" by (simp add: ev_def s'_def)
      moreover have "[idx] \<noteq> []" by simp
      ultimately show ?thesis using res(1) by blast
    next
      case ok: True
      then have "targets_loop e price (it # rest) s m = targets_loop e price rest s' m'"
        using it True by (simp add: s'_def m1_def ev_def m'_def notify_update_def Let_def)
      then have rec: "targets_loop e price rest s' m' = (r, s1, m2)"
        using Cons.prems(2) by simp
      from Cons.IH [OF d rec] obtain ys zs evs where
        a: "new_hits rest s' price = ys @ zs" and b: "r = None \<longrightarrow> zs = []"
        and c: "s1 = s'\<lparr>hit_targets := hit_targets s' @ ys\<rparr>"
        and dd: "m2 = m'\<lparr>STORE := (if ys = [] then STORE m' else store_update s1 (STORE m')),
                events := events m' @ evs\<rparr>"
        and f: "map ev_target evs = map Some ys"
        and g: "\<forall>ev \<in> set evs. sig_id (ev_signal ev) = sig_id s'"
        and h: "r = None \<or> (r = Some SendError \<and> ys \<noteq> [])"
        by blast
      have a': "new_hits (it # rest) s price = (idx # ys) @ zs"
        using a nh new_hits_append_fresh [OF fresh, of s price] by (simp add: s'_def)
      have c': "s1 = s\<lparr>hit_targets := hit_targets s @ (idx # ys)\<rparr>" using c by (simp add: s'_def)
      have sid: "sig_id s1 = sig_id s'" using c by simp
      have st: "STORE m2 = store_update s1 (STORE m)"
      proof (cases "ys = []")
        case True
        then have "s1 = s'" using c by simp
        then show ?thesis using dd True by (simp add: m'_def m1_def)
      next
        case False
        then show ?thesis using dd store_update_collapse [OF sid, of "STORE m"]
          by (simp add: m'_def m1_def)
      qed
      have d': "m2 = m\<lparr>STORE := (if idx # ys = [] then STORE m else store_update s1 (STORE m)),
                events := events m @ (ev # evs)\<rparr>"
        using dd st by (simp add: m'_def m1_def)
      have f': "map ev_target (ev # evs) = map Some (idx # ys)" using f by (simp add: ev_def)
      have g': "\<forall>x \<in> set (ev # evs). sig_id (ev_signal x) = sig_id s"
        using g by (simp add: ev_def s'_def)
      have h': "r = None \<or> (r = Some SendError \<and> idx # ys \<noteq> [])" using h by auto
      show ?thesis using a' b c' d' f' g' h' by blast
    qed
  qed
qed

lemma stop_check_effect:
  "stop_check e price s m = (r, s2, m3) \<Longrightarrow>
   \<exists>stp. (stp \<longleftrightarrow> active s \<and> (\<exists>sp. stop s = Some sp \<and> stop_hit (side s) price sp))
      \<and> s2 = (if stp then s\<lparr>active := False\<rparr> else s)
      \<and> m3 = (if stp then m\<lparr>STORE := store_update s2 (STORE m),
                             events := events m @ [StopHitEv s2 (the (stop s)) price]\<rparr> else m)
      \<and> (\<not> stp \<longrightarrow> r = None)
      \<and> (stp \<longrightarrow> (r = None \<longleftrightarrow> send_ok e (length (events m))))"
  by (cases "stop s") (auto simp: stop_check_def notify_update_def Let_def split: if_splits)

lemma distinct_py_enumerate: "distinct (map fst (py_enumerate xs))"
  by (simp add: py_enumerate_def distinct_map inj_on_def)

lemma monitor_signal_active:
  assumes act: "active s" and p: "td_price e (fetches m) (symbol s) = Some price"
    and res: "monitor_signal e s m = (r, m')"
  shows "\<exists>ys stp. sig_step s price m r m' ys stp
           \<and> (fst (targets_loop e price (py_enumerate (targets s)) s
                      (snd (td_get_price e (symbol s) m))) = None \<longrightarrow>
                ys = new_hits (py_enumerate (targets s)) s price
                \<and> (stp \<longleftrightarrow> (\<exists>sp. stop s = Some sp \<and> stop_hit (side s) price sp)))"
proof -
  define m1 where "m1 = m\<lparr>fetches := fetches m + 1\<rparr>"
  have m1: "snd (td_get_price e (symbol s) m) = m1" by (simp add: td_get_price_def m1_def)
  obtain r1 s1 m2 where tl: "targets_loop e price (py_enumerate (targets s)) s m1 = (r1, s1, m2)"
    by (cases "targets_loop e price (py_enumerate (targets s)) s m1") auto
  from targets_loop_effect [OF distinct_py_enumerate tl] obtain ys zs evs where
    a: "new_hits (py_enumerate (targets s)) s price = ys @ zs" and b: "r1 = None \<longrightarrow> zs = []"
    and c: "s1 = s\<lparr>hit_targets := hit_targets s @ ys\<rparr>"
    and d: "m2 = m1\<lparr>STORE := (if ys = [] then STORE m1 else store_update s1 (STORE m1)),
                events := events m1 @ evs\<rparr>"
    and f: "map ev_target evs = map Some ys"
    and g: "\<forall>ev \<in> set evs. sig_id (ev_signal ev) = sig_id s"
    and h: "r1 = None \<or> (r1 = Some SendError \<and> ys \<noteq> [])"
    by blast
  have ms: "monitor_signal e s m =
      (case r1 of Some err \<Rightarrow> (Some err, m2)
       | None \<Rightarrow> (case stop_check e price s1 m2 of (r, s2, m3) \<Rightarrow> (r, m3)))"
    using act p tl by (simp add: monitor_signal_def td_get_price_def m1_def split: option.splits)
  show ?thesis
  proof (cases r1)
    case (Some err)
    then have rm: "r = Some SendError" "m' = m2" "ys \<noteq> []"
      using res ms h by auto
    have "s1 = s\<lparr>hit_targets := hit_targets s @ ys, active := \<not> False\<rparr>" using c act by simp
    moreover have "m' = m\<lparr>fetches := fetches m + 1,
                  STORE := (if ys = [] \<and> \<not> False then STORE m else store_update s1 (STORE m)),
                  events := events m @ evs\<rparr>"
      using rm d by (simp add: m1_def)
    moreover have "map ev_target evs = map Some ys @ (if False then [None] else [])" using f by simp
    ultimately have "sig_step s price m r m' ys False"
      unfolding sig_step_def using g rm a by blast
    moreover have "fst (targets_loop e price (py_enumerate (targets s)) s
                      (snd (td_get_price e (symbol s) m))) = Some err"
      using tl Some by (simp add: m1)
    ultimately show ?thesis by (intro exI [of _ ys] exI [of _ False]) simp
  next
    case None
    obtain r3 s2 m3 where sc: "stop_check e price s1 m2 = (r3, s2, m3)"
      by (cases "stop_check e price s1 m2") auto
    have rm: "r = r3" "m' = m3" using res ms None sc by simp_all
    from stop_check_effect [OF sc] obtain stp where
      s1: "stp \<longleftrightarrow> active s1 \<and> (\<exists>sp. stop s1 = Some sp \<and> stop_hit (side s1) price sp)"
      and s2: "s2 = (if stp then s1\<lparr>active := False\<rparr> else s1)"
      and s3: "m3 = (if stp then m2\<lparr>STORE := store_update s2 (STORE m2),
                             events := events m2 @ [StopHitEv s2 (the (stop s1)) price]\<rparr> else m2)"
      and s4: "\<not> stp \<longrightarrow> r3 = None"
      by blast
    have ys: "ys = new_hits (py_enumerate (targets s)) s price" using a b None by simp
    have stp: "stp \<longleftrightarrow> (\<exists>sp. stop s = Some sp \<and> stop_hit (side s) price sp)"
      using s1 c act by simp
    define evs' where "evs' = evs @ (if stp then [StopHitEv s2 (the (stop s1)) price] else [])"
    have e1: "s2 = s\<lparr>hit_targets := hit_targets s @ ys, active := \<not> stp\<rparr>"
      using s2 c act by simp
    have sid: "sig_id s2 = sig_id s1" using s2 by simp
    have e2: "m' = m\<lparr>fetches := fetches m + 1,
                  STORE := (if ys = [] \<and> \<not> stp then STORE m else store_update s2 (STORE m)),
                  events := events m @ evs'\<rparr>"
    proof (cases stp)
      case True
      then show ?thesis
        using rm s3 d store_update_collapse [OF sid, of "STORE m"]
        by (simp add: m1_def evs'_def)
    next
      case False
      then have "s2 = s1" using s2 by simp
      then show ?thesis using False rm s3 d by (simp add: m1_def evs'_def)
    qed
    have e3: "map ev_target evs' = map Some ys @ (if stp then [None] else [])"
      using f by (simp add: evs'_def)
    have e4: "\<forall>ev \<in> set evs'. sig_id (ev_signal ev) = sig_id s"
      using g e1 by (auto simp add: evs'_def)
    have "sig_step s price m r m' ys stp"
      unfolding sig_step_def using e1 e2 e3 e4 ys stp s4 rm by blast
    then show ?thesis using ys stp by (intro exI [of _ ys] exI [of _ stp]) simp
  qed
qed

lemma store_get_update:
  "store_get (store_update s st) k = (if k = sig_id s then Some s else store_get st k)"
  by (simp add: store_get_def store_update_def store_save_def update_conv')

lemma list_all_update:
  "list_all P al \<Longrightarrow> P (k, v) \<Longrightarrow> list_all P (AList.update k v al)"
  by (induction al) auto

lemma store_wf_update: "store_wf st \<Longrightarrow> store_wf (store_update s st)"
  by (simp add: store_wf_def store_update_def store_save_def distinct_update list_all_update)

lemma sig_progress_same:
  assumes "store_get (STORE m') k = store_get (STORE m) k"
    and "keyed k (events m') = keyed k (events m)"
  shows "sig_progress k m m'"
proof (cases "store_get (STORE m) k")
  case None
  then show ?thesis using assms by (simp add: sig_progress_def)
next
  case (Some s)
  have "store_get (STORE m') k
          = Some (s\<lparr>hit_targets := hit_targets s @ [], active := active s \<and> \<not> False\<rparr>)
        \<and> distinct ([] :: int list) \<and> set ([] :: int list) \<inter> set (hit_targets s) = {}
        \<and> keyed k (events m') = keyed k (events m) @ map Some [] @ (if False then [None] else [])
        \<and> (\<not> active s \<longrightarrow> ([] :: int list) = [] \<and> \<not> False)"
    using assms Some by simp
  then show ?thesis unfolding sig_progress_def Some option.case by blast
qed

lemma sig_progress_refl: "sig_progress k m m"
  by (rule sig_progress_same) simp_all

lemma keyed_append: "keyed k (xs @ ys) = keyed k xs @ keyed k ys"
  by (simp add: keyed_def)

lemma keyed_other: "\<forall>ev \<in> set evs. sig_id (ev_signal ev) \<noteq> k \<Longrightarrow> keyed k evs = []"
  by (induction evs) (auto simp: keyed_def)

lemma keyed_own: "\<forall>ev \<in> set evs. sig_id (ev_signal ev) = k \<Longrightarrow> keyed k evs = map ev_target evs"
  by (induction evs) (auto simp: keyed_def)

lemma distinct_new_hits: "distinct (map fst its) \<Longrightarrow> distinct (new_hits its s price)"
  by (simp add: new_hits_def distinct_map_filter)

lemma new_hits_disjoint: "set (new_hits its s price) \<inter> set (hit_targets s) = {}"
  by (auto simp: new_hits_def)

lemma sig_step_progress:
  assumes st: "sig_step s price m r m' ys stp" and act: "active s"
    and live: "store_get (STORE m) (sig_id s) = Some s"
  shows "sig_progress k m m'"
proof -
  from st obtain evs s' where
    a: "s' = s\<lparr>hit_targets := hit_targets s @ ys, active := \<not> stp\<rparr>"
    and b: "m' = m\<lparr>fetches := fetches m + 1,
                  STORE := (if ys = [] \<and> \<not> stp then STORE m else store_update s' (STORE m)),
                  events := events m @ evs\<rparr>"
    and c: "map ev_target evs = map Some ys @ (if stp then [None] else [])"
    and d: "\<forall>ev \<in> set evs. sig_id (ev_signal ev) = sig_id s"
    unfolding sig_step_def by blast
  have "\<exists>zs. new_hits (py_enumerate (targets s)) s price = ys @ zs"
    using st unfolding sig_step_def by auto
  then obtain zs where f: "new_hits (py_enumerate (targets s)) s price = ys @ zs" by blast
  have dist: "distinct ys" and disj: "set ys \<inter> set (hit_targets s) = {}"
    using distinct_new_hits [OF distinct_py_enumerate, of "targets s" s price]
      new_hits_disjoint [of "py_enumerate (targets s)" s price] f by auto
  have sid: "sig_id s' = sig_id s" using a by simp
  show ?thesis
  proof (cases "k = sig_id s")
    case True
    have same: "s' = s" if "ys = []" "\<not> stp" using a that act by simp
    have g: "store_get (STORE m') k = Some s'"
    proof (cases "ys = [] \<and> \<not> stp")
      case True
      then show ?thesis using b \<open>k = sig_id s\<close> live same by simp
    next
      case False
      then show ?thesis using b \<open>k = sig_id s\<close> sid by (auto simp: store_get_update)
    qed
    have "keyed k (events m') = keyed k (events m) @ map Some ys @ (if stp then [None] else [])"
      using b c d True by (simp add: keyed_append keyed_own)
    then show ?thesis
      unfolding sig_progress_def using True live g a act dist disj by auto
  next
    case False
    have g: "store_get (STORE m') k = store_get (STORE m) k"
      using b False sid by (simp add: store_get_update)
    have h: "keyed k (events m') = keyed k (events m)"
      using b d False by (simp add: keyed_append keyed_other)
    show ?thesis using g h by (rule sig_progress_same)
  qed
qed

lemma sig_step_frame:
  assumes st: "sig_step s price m r m' ys stp"
  shows "(\<forall>k. k \<noteq> sig_id s \<longrightarrow> store_get (STORE m') k = store_get (STORE m) k)
         \<and> (store_wf (STORE m) \<longrightarrow> store_wf (STORE m'))"
  using st unfolding sig_step_def by (auto simp: store_get_update store_wf_update)

lemma sig_progress_trans:
  assumes p1: "sig_progress k m m1" and p2: "sig_progress k m1 m2"
  shows "sig_progress k m m2"
proof (cases "store_get (STORE m) k")
  case None
  then show ?thesis using p1 p2 by (simp add: sig_progress_def)
next
  case (Some s)
  from p1 Some obtain ys1 stp1 where
    a1: "store_get (STORE m1) k
           = Some (s\<lparr>hit_targets := hit_targets s @ ys1, active := active s \<and> \<not> stp1\<rparr>)"
    and b1: "distinct ys1" and c1: "set ys1 \<inter> set (hit_targets s) = {}"
    and d1: "keyed k (events m1) = keyed k (events m) @ map Some ys1 @ (if stp1 then [None] else [])"
    and e1: "\<not> active s \<longrightarrow> ys1 = [] \<and> \<not> stp1"
    unfolding sig_progress_def by auto
  define s1 where "s1 = s\<lparr>hit_targets := hit_targets s @ ys1, active := active s \<and> \<not> stp1\<rparr>"
  from p2 a1 obtain ys2 stp2 where
    a2: "store_get (STORE m2) k
           = Some (s1\<lparr>hit_targets := hit_targets s1 @ ys2, active := active s1 \<and> \<not> stp2\<rparr>)"
    and b2: "distinct ys2" and c2: "set ys2 \<inter> set (hit_targets s1) = {}"
    and d2: "keyed k (events m2) = keyed k (events m1) @ map Some ys2 @ (if stp2 then [None] else [])"
    and e2: "\<not> active s1 \<longrightarrow> ys2 = [] \<and> \<not> stp2"
    unfolding sig_progress_def s1_def by auto
  have f: "stp1 \<longrightarrow> ys2 = [] \<and> \<not> stp2" using e2 by (simp add: s1_def)
  have "store_get (STORE m2) k
          = Some (s\<lparr>hit_targets := hit_targets s @ (ys1 @ ys2),
                    active := active s \<and> \<not> (stp1 \<or> stp2)\<rparr>)"
    using a2 by (simp add: s1_def)
  moreover have "distinct (ys1 @ ys2)" using b1 b2 c2 by (auto simp: s1_def)
  moreover have "set (ys1 @ ys2) \<inter> set (hit_targets s) = {}" using c1 c2 by (auto simp: s1_def)
  moreover have "keyed k (events m2)
       = keyed k (events m) @ map Some (ys1 @ ys2) @ (if stp1 \<or> stp2 then [None] else [])"
    using d1 d2 f by auto
  moreover have "\<not> active s \<longrightarrow> ys1 @ ys2 = [] \<and> \<not> (stp1 \<or> stp2)" using e1 e2 by (auto simp: s1_def)
  ultimately show ?thesis unfolding sig_progress_def Some option.case by blast
qed

lemma monitor_signal_progress:
  assumes live: "store_get (STORE m) (sig_id s) = Some s"
    and res: "monitor_signal e s m = (r, m')"
  shows "sig_progress k m m'
         \<and> (\<forall>j. j \<noteq> sig_id s \<longrightarrow> store_get (STORE m') j = store_get (STORE m) j)
         \<and> (store_wf (STORE m) \<longrightarrow> store_wf (STORE m'))"
proof (cases "active s")
  case False
  then have "m' = m" using res by (simp add: monitor_signal_def)
  then show ?thesis by (simp add: sig_progress_refl)
next
  case True
  show ?thesis
  proof (cases "td_price e (fetches m) (symbol s)")
    case None
    then have "m' = m\<lparr>fetches := fetches m + 1\<rparr>"
      using res True by (simp add: monitor_signal_def td_get_price_def)
    then show ?thesis by (simp add: sig_progress_same)
  next
    case (Some price)
    from monitor_signal_active [OF True Some res] obtain ys stp where
      "sig_step s price m r m' ys stp" by blast
    then show ?thesis using sig_step_progress [OF _ True live] sig_step_frame by blast
  qed
qed

lemma for_signals_progress:
  assumes "distinct (map sig_id ss)"
    and "\<forall>s \<in> set ss. store_get (STORE m) (sig_id s) = Some s"
  shows "sig_progress k m (snd (for_signals e ss m))
         \<and> (store_wf (STORE m) \<longrightarrow> store_wf (STORE (snd (for_signals e ss m))))"
  using assms
proof (induction ss arbitrary: m)
  case Nil
  then show ?case by (simp add: sig_progress_refl)
next
  case (Cons s ss)
  obtain r m1 where ms: "monitor_signal e s m = (r, m1)" by (cases "monitor_signal e s m")
  have live: "store_get (STORE m) (sig_id s) = Some s" using Cons.prems(2) by simp
  note step = monitor_signal_progress [OF live ms, of k]
  show ?case
  proof (cases r)
    case (Some err)
    then show ?thesis using ms step by simp
  next
    case None
    have d: "distinct (map sig_id ss)" using Cons.prems(1) by simp
    have l: "\<forall>x \<in> set ss. store_get (STORE m1) (sig_id x) = Some x"
    proof
      fix x assume x: "x \<in> set ss"
      then have "sig_id x \<noteq> sig_id s" using Cons.prems(1) by (auto simp: image_iff)
      then show "store_get (STORE m1) (sig_id x) = Some x" using step Cons.prems(2) x by simp
    qed
    from Cons.IH [OF d l] step None ms show ?thesis
      by (auto intro: sig_progress_trans)
  qed
qed

lemma distinct_map_sort_key: "distinct (map g (sort_key f xs)) = distinct (map g xs)"
  by (simp add: distinct_map)

lemma store_wf_ids: "store_wf st \<Longrightarrow> map sig_id (map snd (signals st)) = map fst (signals st)"
  by (auto simp: store_wf_def list_all_iff)

lemma store_wf_snapshot:
  assumes "store_wf st"
  shows "distinct (map sig_id (store_all st))"
    and "\<forall>s \<in> set (store_all st). store_get st (sig_id s) = Some s"
proof -
  have "distinct (map fst (signals st))" using assms by (simp add: store_wf_def)
  then have d: "distinct (map sig_id (map snd (signals st)))"
    by (simp only: store_wf_ids [OF assms])
  show "distinct (map sig_id (store_all st))"
    unfolding store_all_def distinct_map_sort_key by (rule d)
  show "\<forall>s \<in> set (store_all st). store_get st (sig_id s) = Some s"
    using assms by (auto simp: store_all_def store_get_def store_wf_def list_all_iff)
qed

lemma monitor_cycle_progress:
  assumes "store_wf (STORE m)"
  shows "sig_progress k m (monitor_cycle e m) \<and> store_wf (STORE (monitor_cycle e m))"
proof -
  obtain r m1 where fs: "for_signals e (store_all (STORE m)) m = (r, m1)"
    by (cases "for_signals e (store_all (STORE m)) m")
  from for_signals_progress [OF store_wf_snapshot [OF assms], of k e] fs assms
  have p: "sig_progress k m m1" and w: "store_wf (STORE m1)" by simp_all
  show ?thesis
  proof (cases r)
    case None
    then show ?thesis using fs p w by (simp add: monitor_cycle_def)
  next
    case (Some err)
    have "sig_progress k m1 (m1\<lparr>logged := logged m1 @ [err]\<rparr>)" by (rule sig_progress_same) simp_all
    then show ?thesis using Some fs p w by (auto simp: monitor_cycle_def intro: sig_progress_trans)
  qed
qed

lemma monitor_prices_progress:
  "store_wf (STORE m) \<Longrightarrow>
   sig_progress k m (monitor_prices n e m) \<and> store_wf (STORE (monitor_prices n e m))"
proof (induction n arbitrary: m)
  case 0
  then show ?case by (simp add: sig_progress_refl)
next
  case (Suc n)
  from monitor_cycle_progress [OF Suc.prems, of k e]
  have p: "sig_progress k m (monitor_cycle e m)" and w: "store_wf (STORE (monitor_cycle e m))"
    by simp_all
  from Suc.IH [OF w] p show ?case by (auto intro: sig_progress_trans)
qed

section \<open>The claims about the price monitor\<close>

lemma store_wf_add: "store_wf st \<Longrightarrow> store_wf (snd (store_add s st))"
  by (simp add: store_wf_def store_add_def store_save_def Let_def distinct_update list_all_update)

lemma list_all_delete: "list_all P al \<Longrightarrow> list_all P (AList.delete k al)"
  by (induction al) auto

lemma store_wf_delete: "store_wf st \<Longrightarrow> store_wf (snd (store_delete k st))"
  by (simp add: store_wf_def store_delete_def store_save_def distinct_delete list_all_delete)

lemma store_wf_run_ops: "store_wf st \<Longrightarrow> store_wf (snd (run_ops ops st))"
proof (induction ops arbitrary: st)
  case Nil
  then show ?case by simp
next
  case (Cons x ops)
  show ?case
  proof (cases x)
    case (Add s)
    then show ?thesis using Cons.IH [OF store_wf_add [OF Cons.prems, of s]]
      by (simp add: split_beta)
  next
    case (Update s)
    then show ?thesis using Cons.IH [OF store_wf_update [OF Cons.prems, of s]] by simp
  next
    case (Delete k)
    then show ?thesis using Cons.IH [OF store_wf_delete [OF Cons.prems, of k]] by simp
  qed
qed

lemma store_wf_store0: "store_wf store0"
  by (simp add: store_wf_def store0_def)

lemma store_wf_store1: "store_wf store1"
  unfolding store1_def by (intro store_wf_add store_wf_store0)

lemma store_wf_store2: "store_wf store2"
  unfolding store2_def by (intro store_wf_add store_wf_store0)

lemma store_get_store1: "store_get store1 1 = Some (sig_long\<lparr>sig_id := 1\<rparr>)"
  by (simp add: store1_def store_get_def store_add_def store_save_def Let_def store0_def)

lemma store_get_store2: "store_get store2 1 = Some (sig_short\<lparr>sig_id := 1\<rparr>)"
  by (simp add: store2_def store_get_def store_add_def store_save_def Let_def store0_def)

text \<open>
  C1. Take a store in which every record is filed under its own id, a signal \<open>s\<close> filed
  under \<open>k\<close>, any number \<open>n\<close> of monitoring cycles and any environment (any sequence of
  prices, rising, falling or oscillating, any failed fetch or delivery). After the
  cycles the signal is still filed under \<open>k\<close>, and its \<open>hit_targets\<close> is the old list
  followed by new indices \<open>ys\<close>: nothing was removed, no index was added twice, and no
  index that was already there was added again. The notifications issued for the signal
  during the cycles are exactly one target-hit notification for each index of \<open>ys\<close>, in
  the same order, followed by the stop-loss notification if the stop triggered: so no
  index is announced twice, and none that was in \<open>hit_targets\<close> before is announced.
  The hypothesis on the store holds for the empty store and is kept by \<open>add\<close>, \<open>update\<close>,
  \<open>delete\<close> and by the monitor itself (\<open>store_wf_store0\<close>, \<open>store_wf_run_ops\<close>,
  \<open>monitor_prices_progress\<close>).
\<close>

theorem target_hit_at_most_once:
  assumes "store_wf (STORE m)" and "store_get (STORE m) k = Some s"
  shows "\<exists>ys stp.
           store_get (STORE (monitor_prices n e m)) k
             = Some (s\<lparr>hit_targets := hit_targets s @ ys, active := active s \<and> \<not> stp\<rparr>)
           \<and> distinct ys \<and> set ys \<inter> set (hit_targets s) = {}
           \<and> keyed k (events (monitor_prices n e m))
               = keyed k (events m) @ map Some ys @ (if stp then [None] else [])"
proof -
  have "sig_progress k m (monitor_prices n e m)"
    using monitor_prices_progress [OF assms(1), of k n e] by simp
  then show ?thesis unfolding sig_progress_def assms(2) option.case by blast
qed

theorem target_hit_at_most_once_witness:
  "store_wf (STORE mon1) \<and> store_get (STORE mon1) 1 = Some sig1
   \<and> map hit_targets (store_all (STORE (monitor_prices (Suc (Suc 0)) env_up mon1))) = [[0, 1]]
   \<and> keyed 1 (events (monitor_prices (Suc (Suc 0)) env_up mon1)) = [Some 0, Some 1]
   \<and> (\<exists>ys stp.
           store_get (STORE (monitor_prices (Suc (Suc 0)) env_up mon1)) 1
             = Some (sig1\<lparr>hit_targets := hit_targets sig1 @ ys, active := active sig1 \<and> \<not> stp\<rparr>)
           \<and> distinct ys \<and> set ys \<inter> set (hit_targets sig1) = {}
           \<and> keyed 1 (events (monitor_prices (Suc (Suc 0)) env_up mon1))
               = keyed 1 (events mon1) @ map Some ys @ (if stp then [None] else []))"
proof -
  have wf: "store_wf (STORE mon1)" by (simp add: mon1_def store_wf_store1)
  have live: "store_get (STORE mon1) 1 = Some sig1"
    by (simp add: mon1_def store_get_store1 sig1_def)
  have r1: "map hit_targets (store_all (STORE (monitor_prices (Suc (Suc 0)) env_up mon1))) = [[0, 1]]"
    by code_simp
  have r2: "keyed 1 (events (monitor_prices (Suc (Suc 0)) env_up mon1)) = [Some 0, Some 1]"
    by code_simp
  from target_hit_at_most_once [OF wf live, of "Suc (Suc 0)" env_up] wf live r1 r2
  show ?thesis by blast
qed

lemma set_py_enumerate: "set (py_enumerate xs) = {(int i, xs ! i) | i. i < length xs}"
proof -
  have "set (py_enumerate xs) = {(map int [0..<length xs] ! i, xs ! i) | i. i < length xs}"
    by (simp add: py_enumerate_def set_zip)
  also have "\<dots> = {(int i, xs ! i) | i. i < length xs}"
  proof (rule Collect_cong)
    fix p
    show "(\<exists>i. p = (map int [0..<length xs] ! i, xs ! i) \<and> i < length xs)
          \<longleftrightarrow> (\<exists>i. p = (int i, xs ! i) \<and> i < length xs)"
      by (metis add_0 length_upt minus_nat.diff_0 nth_map nth_upt)
  qed
  finally show ?thesis .
qed

lemma set_new_hits:
  "set (new_hits (py_enumerate xs) s price)
     = {int i | i. i < length xs \<and> int i \<notin> set (hit_targets s) \<and> target_hit (side s) price (xs ! i)}"
  by (auto simp: new_hits_def set_py_enumerate image_iff) 

lemma target_hit_iff_cmp:
  "target_hit sd price tgt \<longleftrightarrow> (sd = ''LONG'' \<and> tgt \<le> price) \<or> (sd = ''SHORT'' \<and> price \<le> tgt)"
  by (auto simp: target_hit_def Let_def)

lemma stop_hit_iff_cmp:
  "stop_hit sd price sp \<longleftrightarrow> (sd = ''LONG'' \<and> price \<le> sp) \<or> (sd = ''SHORT'' \<and> sp \<le> price)"
  by (auto simp: stop_hit_def Let_def)

lemma disk_store_update: "disk (store_update s st) = Some (save_doc (store_update s st))"
  by (simp add: store_update_def disk_store_save)

text \<open>
  C4. The body of the monitor loop for an active signal \<open>s\<close> of the store whose price was
  fetched. For every index \<open>i\<close> of \<open>targets\<close> that is not yet in \<open>hit_targets\<close>: if the index
  is in \<open>hit_targets\<close> afterwards, then the side is LONG and the price is at least the
  target, or the side is SHORT and the price is at most the target; when the body ends
  without an exception the converse holds too, so the target is hit exactly when its own
  comparison holds, whatever the other targets are; and the index is added exactly when a
  target-hit notification for it is issued in this step. (A delivery that raises leaves
  the loop; the targets after it are looked at in the next cycle.)
\<close>

theorem target_hit_iff:
  assumes live: "store_get (STORE m) (sig_id s) = Some s" and act: "active s"
    and price: "td_price e (fetches m) (symbol s) = Some price"
    and res: "monitor_signal e s m = (r, m')"
  shows "\<exists>s'. store_get (STORE m') (sig_id s) = Some s'
           \<and> (\<forall>i < length (targets s). int i \<notin> set (hit_targets s) \<longrightarrow>
                 (int i \<in> set (hit_targets s') \<longrightarrow>
                    (side s = ''LONG'' \<and> targets s ! i \<le> price)
                    \<or> (side s = ''SHORT'' \<and> price \<le> targets s ! i))
                 \<and> (r = None \<longrightarrow>
                      (int i \<in> set (hit_targets s') \<longleftrightarrow>
                         (side s = ''LONG'' \<and> targets s ! i \<le> price)
                         \<or> (side s = ''SHORT'' \<and> price \<le> targets s ! i)))
                 \<and> (int i \<in> set (hit_targets s') \<longleftrightarrow>
                      Some (int i) \<in> set (drop (length (keyed (sig_id s) (events m)))
                                              (keyed (sig_id s) (events m')))))"
proof -
  from monitor_signal_active [OF act price res] obtain ys stp where
    st: "sig_step s price m r m' ys stp" by blast
  from st obtain evs s' where
    a: "s' = s\<lparr>hit_targets := hit_targets s @ ys, active := \<not> stp\<rparr>"
    and b: "m' = m\<lparr>fetches := fetches m + 1,
                  STORE := (if ys = [] \<and> \<not> stp then STORE m else store_update s' (STORE m)),
                  events := events m @ evs\<rparr>"
    and c: "map ev_target evs = map Some ys @ (if stp then [None] else [])"
    and d: "\<forall>ev \<in> set evs. sig_id (ev_signal ev) = sig_id s"
    unfolding sig_step_def by blast
  have pre: "\<exists>zs. new_hits (py_enumerate (targets s)) s price = ys @ zs"
    using st unfolding sig_step_def by auto
  have full: "r = None \<longrightarrow> ys = new_hits (py_enumerate (targets s)) s price"
    using st unfolding sig_step_def by auto
  have sid: "sig_id s' = sig_id s" using a by simp
  have same: "s' = s" if "ys = []" "\<not> stp" using a that act by simp
  have g: "store_get (STORE m') (sig_id s) = Some s'"
  proof (cases "ys = [] \<and> \<not> stp")
    case True
    then show ?thesis using b live same by simp
  next
    case False
    then show ?thesis using b sid by (auto simp: store_get_update)
  qed
  have k: "keyed (sig_id s) (events m')
            = keyed (sig_id s) (events m) @ map Some ys @ (if stp then [None] else [])"
    using b c d by (simp add: keyed_append keyed_own)
  have h: "hit_targets s' = hit_targets s @ ys" using a by simp
  have sub: "set ys \<subseteq> set (new_hits (py_enumerate (targets s)) s price)" using pre by auto
  have "\<forall>i < length (targets s). int i \<notin> set (hit_targets s) \<longrightarrow>
                 (int i \<in> set (hit_targets s') \<longrightarrow>
                    (side s = ''LONG'' \<and> targets s ! i \<le> price)
                    \<or> (side s = ''SHORT'' \<and> price \<le> targets s ! i))
                 \<and> (r = None \<longrightarrow>
                      (int i \<in> set (hit_targets s') \<longleftrightarrow>
                         (side s = ''LONG'' \<and> targets s ! i \<le> price)
                         \<or> (side s = ''SHORT'' \<and> price \<le> targets s ! i)))
                 \<and> (int i \<in> set (hit_targets s') \<longleftrightarrow>
                      Some (int i) \<in> set (drop (length (keyed (sig_id s) (events m)))
                                              (keyed (sig_id s) (events m'))))"
  proof (intro allI impI)
    fix i assume i: "i < length (targets s)" and n: "int i \<notin> set (hit_targets s)"
    have m1: "int i \<in> set (hit_targets s') \<longleftrightarrow> int i \<in> set ys" using h n by simp
    have m2: "int i \<in> set (new_hits (py_enumerate (targets s)) s price)
               \<longleftrightarrow> target_hit (side s) price (targets s ! i)"
      using i n by (auto simp: set_new_hits)
    have m3: "Some (int i) \<in> set (drop (length (keyed (sig_id s) (events m)))
                                              (keyed (sig_id s) (events m')))
               \<longleftrightarrow> int i \<in> set ys"
      unfolding k by auto
    show "(int i \<in> set (hit_targets s') \<longrightarrow>
                    (side s = ''LONG'' \<and> targets s ! i \<le> price)
                    \<or> (side s = ''SHORT'' \<and> price \<le> targets s ! i))
                 \<and> (r = None \<longrightarrow>
                      (int i \<in> set (hit_targets s') \<longleftrightarrow>
                         (side s = ''LONG'' \<and> targets s ! i \<le> price)
                         \<or> (side s = ''SHORT'' \<and> price \<le> targets s ! i)))
                 \<and> (int i \<in> set (hit_targets s') \<longleftrightarrow>
                      Some (int i) \<in> set (drop (length (keyed (sig_id s) (events m)))
                                              (keyed (sig_id s) (events m'))))"
      using m1 m2 m3 sub full target_hit_iff_cmp [of "side s" price "targets s ! i"] by blast
  qed
  then show ?thesis using g by blast
qed

theorem target_hit_iff_witness:
  "store_get (STORE mon1) (sig_id sig1) = Some sig1 \<and> active sig1
   \<and> td_price env_up (fetches mon1) (symbol sig1) = Some 1.11
   \<and> fst (monitor_signal env_up sig1 mon1) = None
   \<and> map hit_targets (store_all (STORE (snd (monitor_signal env_up sig1 mon1)))) = [[0]]
   \<and> targets sig1 = [1.10, 1.12]
   \<and> (\<exists>s'. store_get (STORE (snd (monitor_signal env_up sig1 mon1))) (sig_id sig1) = Some s'
         \<and> hit_targets s' = [0])"
proof -
  have i: "sig_id sig1 = 1" by (simp add: sig1_def)
  have live: "store_get (STORE mon1) (sig_id sig1) = Some sig1"
    by (simp add: mon1_def store_get_store1 sig1_def)
  have act: "active sig1" by (simp add: sig1_def sig_long_def Signal_init_def)
  have price: "td_price env_up (fetches mon1) (symbol sig1) = Some 1.11"
    by (simp add: env_up_def mon1_def)
  have res: "monitor_signal env_up sig1 mon1
               = (fst (monitor_signal env_up sig1 mon1), snd (monitor_signal env_up sig1 mon1))"
    by simp
  have r: "fst (monitor_signal env_up sig1 mon1) = None" by code_simp
  have h: "map hit_targets (store_all (STORE (snd (monitor_signal env_up sig1 mon1)))) = [[0]]"
    by code_simp
  have t: "targets sig1 = [1.10, 1.12]" by (simp add: sig1_def sig_long_def Signal_init_def)
  have g: "store_get (STORE (snd (monitor_signal env_up sig1 mon1))) 1
             = Some (sig1\<lparr>hit_targets := [0]\<rparr>)"
    by code_simp
  from target_hit_iff [OF live act price res] live act price r h t g i
  show ?thesis by simp
qed

text \<open>
  C5. The body of the monitor loop for an active signal \<open>s\<close> of the store with stop \<open>sp\<close>,
  whose price was fetched and whose target loop ended without an exception, so that the
  stop-loss block is reached. The stop triggers exactly when the side is LONG and the
  price is at most the stop, or the side is SHORT and the price is at least the stop. The
  record filed afterwards is active exactly when the stop did not trigger, and the
  notifications of the step are those of the targets hit followed by exactly one
  stop-loss notification when it triggered, none otherwise. When it triggered, the file
  holds the document of the store, and from any later state that files this record under
  its id, any number of cycles in any environment leave the record as it is and issue no
  notification for it.
\<close>

theorem stop_loss_trigger:
  assumes live: "store_get (STORE m) (sig_id s) = Some s" and act: "active s"
    and sp: "stop s = Some sp"
    and price: "td_price e (fetches m) (symbol s) = Some price"
    and tl: "fst (targets_loop e price (py_enumerate (targets s)) s
                   (snd (td_get_price e (symbol s) m))) = None"
    and res: "monitor_signal e s m = (r, m')"
  shows "(stop_hit (side s) price sp \<longleftrightarrow>
            (side s = ''LONG'' \<and> price \<le> sp) \<or> (side s = ''SHORT'' \<and> sp \<le> price))
         \<and> (\<exists>s' ys. store_get (STORE m') (sig_id s) = Some s'
               \<and> (active s' \<longleftrightarrow> \<not> stop_hit (side s) price sp)
               \<and> keyed (sig_id s) (events m')
                   = keyed (sig_id s) (events m) @ map Some ys
                       @ (if stop_hit (side s) price sp then [None] else [])
               \<and> (stop_hit (side s) price sp \<longrightarrow>
                     disk (STORE m') = Some (save_doc (STORE m'))
                     \<and> (\<forall>m2 e2 n.
                           store_wf (STORE m2) \<and> store_get (STORE m2) (sig_id s) = Some s' \<longrightarrow>
                             store_get (STORE (monitor_prices n e2 m2)) (sig_id s) = Some s'
                             \<and> keyed (sig_id s) (events (monitor_prices n e2 m2))
                                 = keyed (sig_id s) (events m2))))"
proof -
  from monitor_signal_active [OF act price res] tl sp obtain ys stp where
    st: "sig_step s price m r m' ys stp" and stp: "stp \<longleftrightarrow> stop_hit (side s) price sp"
    by auto
  from st obtain evs s' where
    a: "s' = s\<lparr>hit_targets := hit_targets s @ ys, active := \<not> stp\<rparr>"
    and b: "m' = m\<lparr>fetches := fetches m + 1,
                  STORE := (if ys = [] \<and> \<not> stp then STORE m else store_update s' (STORE m)),
                  events := events m @ evs\<rparr>"
    and c: "map ev_target evs = map Some ys @ (if stp then [None] else [])"
    and d: "\<forall>ev \<in> set evs. sig_id (ev_signal ev) = sig_id s"
    unfolding sig_step_def by blast
  have sid: "sig_id s' = sig_id s" using a by simp
  have same: "s' = s" if "ys = []" "\<not> stp" using a that act by simp
  have g: "store_get (STORE m') (sig_id s) = Some s'"
  proof (cases "ys = [] \<and> \<not> stp")
    case True
    then show ?thesis using b live same by simp
  next
    case False
    then show ?thesis using b sid by (auto simp: store_get_update)
  qed
  have k: "keyed (sig_id s) (events m')
            = keyed (sig_id s) (events m) @ map Some ys
                @ (if stop_hit (side s) price sp then [None] else [])"
    using b c d stp by (simp add: keyed_append keyed_own)
  have act': "active s' \<longleftrightarrow> \<not> stop_hit (side s) price sp" using a stp by simp
  have pers: "disk (STORE m') = Some (save_doc (STORE m'))" if "stop_hit (side s) price sp"
    using b stp that by (simp add: disk_store_update)
  have later: "store_get (STORE (monitor_prices n e2 m2)) (sig_id s) = Some s'
         \<and> keyed (sig_id s) (events (monitor_prices n e2 m2)) = keyed (sig_id s) (events m2)"
    if "stop_hit (side s) price sp" and wf: "store_wf (STORE m2)"
      and l2: "store_get (STORE m2) (sig_id s) = Some s'" for m2 e2 n
  proof -
    have ina: "\<not> active s'" using act' that(1) by simp
    have "sig_progress (sig_id s) m2 (monitor_prices n e2 m2)"
      using monitor_prices_progress [OF wf, of "sig_id s" n e2] by simp
    then show ?thesis unfolding sig_progress_def l2 option.case using ina by auto
  qed
  show ?thesis
    using g k act' pers later stop_hit_iff_cmp [of "side s" price sp] by blast
qed

theorem stop_loss_trigger_witness:
  "store_get (STORE mon2) (sig_id sig_short1) = Some sig_short1 \<and> active sig_short1
   \<and> stop sig_short1 = Some 1.20
   \<and> td_price env_sl (fetches mon2) (symbol sig_short1) = Some 1.21
   \<and> fst (targets_loop env_sl 1.21 (py_enumerate (targets sig_short1)) sig_short1
            (snd (td_get_price env_sl (symbol sig_short1) mon2))) = None
   \<and> stop_hit (side sig_short1) 1.21 1.20
   \<and> map active (store_all (STORE (monitor_prices (Suc (Suc 0)) env_sl mon2))) = [False]
   \<and> keyed 1 (events (monitor_prices (Suc 0) env_sl mon2)) = [None]
   \<and> keyed 1 (events (monitor_prices (Suc (Suc 0)) env_sl mon2)) = [None]"
proof -
  have live: "store_get (STORE mon2) (sig_id sig_short1) = Some sig_short1"
    by (simp add: mon2_def store_get_store2 sig_short1_def)
  have act: "active sig_short1" by (simp add: sig_short1_def sig_short_def Signal_init_def)
  have sp: "stop sig_short1 = Some 1.20" by (simp add: sig_short1_def sig_short_def Signal_init_def)
  have price: "td_price env_sl (fetches mon2) (symbol sig_short1) = Some 1.21"
    by (simp add: env_sl_def mon2_def)
  have tl: "fst (targets_loop env_sl 1.21 (py_enumerate (targets sig_short1)) sig_short1
            (snd (td_get_price env_sl (symbol sig_short1) mon2))) = None"
    by code_simp
  have res: "monitor_signal env_sl sig_short1 mon2
               = (fst (monitor_signal env_sl sig_short1 mon2), snd (monitor_signal env_sl sig_short1 mon2))"
    by simp
  have r1: "map active (store_all (STORE (monitor_prices (Suc (Suc 0)) env_sl mon2))) = [False]"
    by code_simp
  have r2: "keyed 1 (events (monitor_prices (Suc 0) env_sl mon2)) = [None]" by code_simp
  have r3: "keyed 1 (events (monitor_prices (Suc (Suc 0)) env_sl mon2)) = [None]" by code_simp
  have "stop_hit (side sig_short1) 1.21 1.20 \<longleftrightarrow>
            (side sig_short1 = ''LONG'' \<and> (1.21::real) \<le> 1.20)
            \<or> (side sig_short1 = ''SHORT'' \<and> (1.20::real) \<le> 1.21)"
    using stop_loss_trigger [OF live act sp price tl res] by blast
  then have sh: "stop_hit (side sig_short1) 1.21 1.20"
    by (simp add: sig_short1_def sig_short_def Signal_init_def)
  show ?thesis using live act sp price tl sh r1 r2 r3 by blast
qed

lemma for_signals_append:
  "for_signals e (xs @ ys) m =
     (case for_signals e xs m of (Some err, m1) \<Rightarrow> (Some err, m1) | (None, m1) \<Rightarrow> for_signals e ys m1)"
  by (induction xs arbitrary: m) (auto split: prod.splits option.splits)

lemma for_signals_frame:
  assumes "\<forall>x \<in> set ss. store_get (STORE m) (sig_id x) = Some x"
    and "distinct (map sig_id ss)" and "k \<notin> sig_id ` set ss"
  shows "store_get (STORE (snd (for_signals e ss m))) k = store_get (STORE m) k"
  using assms
proof (induction ss arbitrary: m)
  case Nil
  then show ?case by simp
next
  case (Cons s ss)
  obtain r m1 where ms: "monitor_signal e s m = (r, m1)" by (cases "monitor_signal e s m")
  have live: "store_get (STORE m) (sig_id s) = Some s" using Cons.prems(1) by simp
  note step = monitor_signal_progress [OF live ms, of k]
  have k: "k \<noteq> sig_id s" using Cons.prems(3) by simp
  have fk: "store_get (STORE m1) k = store_get (STORE m) k" using step k by simp
  show ?case
  proof (cases r)
    case (Some err)
    then show ?thesis using ms fk by simp
  next
    case None
    have l: "\<forall>x \<in> set ss. store_get (STORE m1) (sig_id x) = Some x"
    proof
      fix x assume x: "x \<in> set ss"
      then have "sig_id x \<noteq> sig_id s" using Cons.prems(2) by (auto simp: image_iff)
      then show "store_get (STORE m1) (sig_id x) = Some x" using step Cons.prems(1) x by simp
    qed
    have d: "distinct (map sig_id ss)" using Cons.prems(2) by simp
    have n: "k \<notin> sig_id ` set ss" using Cons.prems(3) by simp
    from Cons.IH [OF l d n] None ms fk show ?thesis by simp
  qed
qed

lemma sig_progress_unchanged:
  assumes p: "sig_progress k m m'" and g: "store_get (STORE m) k = Some x"
    and g': "store_get (STORE m') k = Some x"
  shows "keyed k (events m') = keyed k (events m)"
proof -
  from p g obtain ys stp where
    a: "store_get (STORE m') k
          = Some (x\<lparr>hit_targets := hit_targets x @ ys, active := active x \<and> \<not> stp\<rparr>)"
    and b: "keyed k (events m') = keyed k (events m) @ map Some ys @ (if stp then [None] else [])"
    and c: "\<not> active x \<longrightarrow> ys = [] \<and> \<not> stp"
    unfolding sig_progress_def by auto
  have e: "x\<lparr>hit_targets := hit_targets x @ ys, active := active x \<and> \<not> stp\<rparr> = x"
    using a g' by simp
  have "hit_targets (x\<lparr>hit_targets := hit_targets x @ ys, active := active x \<and> \<not> stp\<rparr>)
          = hit_targets x" by (simp only: e)
  then have ys: "ys = []" by simp
  have "active (x\<lparr>hit_targets := hit_targets x @ ys, active := active x \<and> \<not> stp\<rparr>) = active x"
    by (simp only: e)
  then have "\<not> stp" using c by auto
  then show ?thesis using b ys by simp
qed

lemma store_wf_store3: "store_wf store3"
  unfolding store3_def by (intro store_wf_add store_wf_store0)

text \<open>
  C2, as the code has it. The \<open>try\<close> of \<open>monitor_prices\<close> encloses the whole \<open>for\<close> loop. Take
  a store that files every record under its own id. When the signals \<open>xs\<close> that come
  before \<open>s\<close> in \<open>STORE.all()\<close> were evaluated without exception and the fetch for the
  active signal \<open>s\<close> fails, the cycle ends there: the state is the one that the evaluation
  of \<open>xs\<close> left, with one more fetch counted and the failure logged. So the signals before
  \<open>s\<close> keep what their evaluation did, while \<open>s\<close> and every signal after it in the
  snapshot are skipped in this cycle: each is filed after the cycle as it was before it,
  and no notification was issued for it.
\<close>

theorem fetch_failure_aborts_cycle:
  assumes wf: "store_wf (STORE m)"
    and snap: "store_all (STORE m) = xs @ s # ys"
    and before: "for_signals e xs m = (None, m1)"
    and act: "active s"
    and fail: "td_price e (fetches m1) (symbol s) = None"
  shows "monitor_cycle e m = m1\<lparr>fetches := fetches m1 + 1, logged := logged m1 @ [FetchError]\<rparr>
         \<and> STORE (monitor_cycle e m) = STORE m1
         \<and> events (monitor_cycle e m) = events m1
         \<and> (\<forall>x \<in> set (s # ys).
               store_get (STORE (monitor_cycle e m)) (sig_id x) = Some x
               \<and> store_get (STORE m) (sig_id x) = Some x
               \<and> keyed (sig_id x) (events (monitor_cycle e m)) = keyed (sig_id x) (events m))"
proof -
  have "monitor_signal e s m1 = (Some FetchError, m1\<lparr>fetches := fetches m1 + 1\<rparr>)"
    using act fail by (simp add: monitor_signal_def td_get_price_def)
  then have "for_signals e (xs @ s # ys) m = (Some FetchError, m1\<lparr>fetches := fetches m1 + 1\<rparr>)"
    using before by (simp add: for_signals_append)
  then have c: "monitor_cycle e m
                  = m1\<lparr>fetches := fetches m1 + 1, logged := logged m1 @ [FetchError]\<rparr>"
    using snap by (simp add: monitor_cycle_def)
  have dist: "distinct (map sig_id (xs @ s # ys))"
    and live: "\<forall>x \<in> set (xs @ s # ys). store_get (STORE m) (sig_id x) = Some x"
    using store_wf_snapshot [OF wf] snap by simp_all
  have dxs: "distinct (map sig_id xs)" and lxs: "\<forall>x \<in> set xs. store_get (STORE m) (sig_id x) = Some x"
    using dist live by simp_all
  have m1: "snd (for_signals e xs m) = m1" using before by simp
  have rest: "store_get (STORE (monitor_cycle e m)) (sig_id x) = Some x
               \<and> store_get (STORE m) (sig_id x) = Some x
               \<and> keyed (sig_id x) (events (monitor_cycle e m)) = keyed (sig_id x) (events m)"
    if x: "x \<in> set (s # ys)" for x
  proof -
    have n: "sig_id x \<notin> sig_id ` set xs" using dist x by auto
    have g: "store_get (STORE m) (sig_id x) = Some x" using live x by auto
    have g1: "store_get (STORE m1) (sig_id x) = Some x"
      using for_signals_frame [OF lxs dxs n, of e] m1 g by simp
    have p: "sig_progress (sig_id x) m m1"
      using for_signals_progress [OF dxs lxs, of "sig_id x" e] m1 by simp
    have "keyed (sig_id x) (events m1) = keyed (sig_id x) (events m)"
      using sig_progress_unchanged [OF p g g1] .
    then show ?thesis using c g g1 by simp
  qed
  show ?thesis using c rest by simp
qed

theorem fetch_failure_aborts_cycle_witness:
  "store_wf (STORE mon3)
   \<and> map symbol (store_all (STORE mon3)) = [''EUR/USD'', ''BAD'', ''GBP/USD'']
   \<and> fst (for_signals env_fail (take 1 (store_all (STORE mon3))) mon3) = None
   \<and> td_price env_fail 1 ''BAD'' = None
   \<and> monitor_cycle env_fail mon3
        = (snd (for_signals env_fail (take 1 (store_all (STORE mon3))) mon3))
            \<lparr>fetches := 2, logged := [FetchError]\<rparr>
   \<and> map hit_targets (store_all (STORE (monitor_cycle env_fail mon3))) = [[0], [], []]
   \<and> store_get (STORE (monitor_cycle env_fail mon3)) 3 = store_get (STORE mon3) 3
   \<and> keyed 3 (events (monitor_cycle env_fail mon3)) = keyed 3 (events mon3)"
proof -
  define xs where "xs = take 1 (store_all (STORE mon3))"
  define s where "s = store_all (STORE mon3) ! 1"
  define ys where "ys = drop 2 (store_all (STORE mon3))"
  define m1 where "m1 = snd (for_signals env_fail xs mon3)"
  have wf: "store_wf (STORE mon3)" by (simp add: mon3_def store_wf_store3)
  have len: "length (store_all (STORE mon3)) = 3" by code_simp
  have snap: "store_all (STORE mon3) = xs @ s # ys"
    unfolding xs_def s_def ys_def using len
    by (metis One_nat_def Cons_nth_drop_Suc Suc_1 append_take_drop_id lessI numeral_3_eq_3
        less_SucI)
  have sy: "map symbol (store_all (STORE mon3)) = [''EUR/USD'', ''BAD'', ''GBP/USD'']" by code_simp
  have b0: "fst (for_signals env_fail xs mon3) = None" unfolding xs_def by code_simp
  then have before: "for_signals env_fail xs mon3 = (None, m1)"
    by (simp add: m1_def prod_eq_iff)
  have act: "active s" unfolding s_def by code_simp
  have f1: "fetches m1 = 1" unfolding m1_def xs_def by code_simp
  have l1: "logged m1 = []" unfolding m1_def xs_def by code_simp
  have sym: "symbol s = ''BAD''" unfolding s_def by code_simp
  have fail: "td_price env_fail (fetches m1) (symbol s) = None"
    by (simp add: f1 sym env_fail_def)
  have h: "map hit_targets (store_all (STORE (monitor_cycle env_fail mon3))) = [[0], [], []]"
    by code_simp
  have i3: "sig_id (last (store_all (STORE mon3))) = 3" by code_simp
  have "last (xs @ s # ys) = last (s # ys)" by simp
  moreover have "last (s # ys) \<in> set (s # ys)" by (rule last_in_set) simp
  ultimately have "last (xs @ s # ys) \<in> set (s # ys)" by (simp only:)
  then have in3: "last (store_all (STORE mon3)) \<in> set (s # ys)" by (simp only: snap)
  note main = fetch_failure_aborts_cycle [OF wf snap before act fail]
  have c: "monitor_cycle env_fail mon3 = m1\<lparr>fetches := 2, logged := [FetchError]\<rparr>"
    using main f1 l1 by simp
  note rest = main [THEN conjunct2, THEN conjunct2, THEN conjunct2, THEN bspec, OF in3]
  have r3: "store_get (STORE (monitor_cycle env_fail mon3)) 3 = store_get (STORE mon3) 3
            \<and> keyed 3 (events (monitor_cycle env_fail mon3)) = keyed 3 (events mon3)"
    using rest unfolding i3 by simp
  show ?thesis using wf sy b0 h c r3 by (simp add: m1_def xs_def env_fail_def)
qed

text \<open>
  The claim C2 as the specification states it fails on the code. In the store with the
  signals EUR/USD, BAD and GBP/USD, the fetch for BAD fails. The provider would answer
  1.05 for GBP/USD, which reaches the SHORT target 1.10, and the loop body run on that
  signal records the hit; but the cycle ends at BAD, and GBP/USD is left without hit and
  without notification.
\<close>

theorem fetch_failure_skips_later_signals_counterexample:
  "map symbol (store_all (STORE mon3)) = [''EUR/USD'', ''BAD'', ''GBP/USD'']
   \<and> td_price env_fail 2 ''GBP/USD'' = Some 1.05
   \<and> target_hit ''SHORT'' 1.05 1.10
   \<and> map hit_targets (store_all (STORE (snd (monitor_signal env_fail (store_all (STORE mon3) ! 2)
         mon3)))) = [[], [], [0]]
   \<and> map hit_targets (store_all (STORE (monitor_cycle env_fail mon3))) = [[0], [], []]
   \<and> keyed 3 (events (monitor_cycle env_fail mon3)) = []
   \<and> logged (monitor_cycle env_fail mon3) = [FetchError]"
proof -
  have a: "map symbol (store_all (STORE mon3)) = [''EUR/USD'', ''BAD'', ''GBP/USD'']" by code_simp
  have b: "td_price env_fail 2 ''GBP/USD'' = Some 1.05" by (simp add: env_fail_def)
  have c: "target_hit ''SHORT'' 1.05 1.10" by (simp add: target_hit_def)
  have d: "map hit_targets (store_all (STORE (monitor_cycle env_fail mon3))) = [[0], [], []]"
    by code_simp
  have e: "keyed 3 (events (monitor_cycle env_fail mon3)) = []" by code_simp
  have f: "logged (monitor_cycle env_fail mon3) = [FetchError]" by code_simp
  have g: "map hit_targets (store_all (STORE (snd (monitor_signal env_fail (store_all (STORE mon3) ! 2)
         mon3)))) = [[], [], [0]]" by code_simp
  show ?thesis using a b c d e f g by blast
qed

section \<open>The claims about \<open>addsignal_cmd\<close>\<close>

lemma those_None_iff: "those xs = None \<longleftrightarrow> None \<in> set xs"
  by (induction xs) (auto split: option.splits)

lemma parse_signal_args_None_iff:
  "parse_signal_args pfloat kv = None \<longleftrightarrow>
     (py_upper (kv_get kv ''side'' ''LONG'') \<noteq> ''LONG''
        \<and> py_upper (kv_get kv ''side'' ''LONG'') \<noteq> ''SHORT'')
     \<or> (\<exists>v. map_of kv ''entry'' = Some v \<and> v \<noteq> [] \<and> pfloat v = None)
     \<or> (\<exists>x \<in> set (split_on CHR '','' (kv_get kv ''targets'' [])). x \<noteq> [] \<and> pfloat x = None)
     \<or> (\<exists>v. map_of kv ''stop'' = Some v \<and> pfloat v = None)"
proof -
  have t: "those (map pfloat (filter (\<lambda>x. x \<noteq> []) (split_on CHR '','' (kv_get kv ''targets'' [])))) = None
        \<longleftrightarrow> (\<exists>x \<in> set (split_on CHR '','' (kv_get kv ''targets'' [])). x \<noteq> [] \<and> pfloat x = None)"
    by (auto simp: those_None_iff image_iff)
  show ?thesis
    unfolding parse_signal_args_def Let_def
    using t by (auto split: option.splits if_splits)
qed

lemma parse_signal_args_Some:
  "parse_signal_args pfloat kv = Some (v_symbol, v_side, v_entry, v_targets, v_stop, v_note) \<Longrightarrow>
   those (map pfloat (filter (\<lambda>x. x \<noteq> []) (split_on CHR '','' (kv_get kv ''targets'' []))))
     = Some v_targets \<and> (v_side = ''LONG'' \<or> v_side = ''SHORT'')"
  unfolding parse_signal_args_def Let_def
  by (auto split: option.splits if_splits)

lemma reply_created_not_format_error:
  "[''Signal #'' @ x @ '' created and posted to channel.''] \<noteq> [format_error_text]"
  by (simp add: format_error_text_def)

lemma addsignal_cmd_rejected:
  assumes "effective_user upd = Some uid" "message upd = Some text" "is_admin cfg uid"
    and "parse_signal_args pfloat (parse_kv_args (partition_tail CHR '' '' text)) = None"
  shows "addsignal_cmd cfg pfloat post upd st = (None, [format_error_text], st)"
  using assms by (simp add: addsignal_cmd_def Let_def)

lemma addsignal_cmd_accepted:
  assumes "effective_user upd = Some uid" "message upd = Some text" "is_admin cfg uid"
    and p: "parse_signal_args pfloat (parse_kv_args (partition_tail CHR '' '' text))
             = Some (v_symbol, v_side, v_entry, v_targets, v_stop, v_note)"
    and res: "addsignal_cmd cfg pfloat post upd st = (r, replies, st')"
  shows "replies \<noteq> [format_error_text]
         \<and> next_id st' = next_id st + 1
         \<and> (\<exists>s. store_get st' (next_id st) = Some s \<and> targets s = v_targets
                \<and> created_at s = class_created_at cfg \<and> sig_id s = next_id st)"
proof -
  define s0 where "s0 = Signal_init (class_created_at cfg) 0 (CHANNEL_ID cfg)
                                    v_symbol v_side v_entry v_targets v_stop v_note"
  define s1 where "s1 = s0\<lparr>sig_id := next_id st\<rparr>"
  define st1 where "st1 = snd (store_add s0 st)"
  have add: "store_add s0 st = (s1, st1)"
    by (simp add: store_add_def s1_def st1_def Let_def)
  have g1: "store_get st1 (next_id st) = Some s1"
    by (simp add: st1_def store_add_def store_get_def store_save_def Let_def update_conv' s1_def)
  have n1: "next_id st1 = next_id st + 1" unfolding st1_def by (rule next_id_store_add)
  have f1: "targets s1 = v_targets" "created_at s1 = class_created_at cfg" "sig_id s1 = next_id st"
    by (simp_all add: s1_def s0_def Signal_init_def)
  have run: "addsignal_cmd cfg pfloat post upd st =
      (case post s1 of
         Inl e \<Rightarrow> (Some e, [], st1)
       | Inr mid \<Rightarrow> (None, [''Signal #'' @ str_int (sig_id (s1\<lparr>message_id := Some mid\<rparr>))
                                @ '' created and posted to channel.''],
                     store_update (s1\<lparr>message_id := Some mid\<rparr>) st1))"
    using assms(1-3) p add by (simp add: addsignal_cmd_def Let_def s0_def split: sum.splits)
  show ?thesis
  proof (cases "post s1")
    case (Inl e)
    then have "r = Some e" "replies = []" "st' = st1" using run res by simp_all
    then show ?thesis using g1 n1 f1 by simp
  next
    case (Inr mid)
    then have e: "replies = [''Signal #'' @ str_int (sig_id (s1\<lparr>message_id := Some mid\<rparr>))
                                @ '' created and posted to channel.'']"
      "st' = store_update (s1\<lparr>message_id := Some mid\<rparr>) st1" using run res by simp_all
    have "store_get st' (next_id st) = Some (s1\<lparr>message_id := Some mid\<rparr>)"
      using e(2) f1(3) by (simp add: store_get_update)
    moreover have "next_id st' = next_id st + 1" using e(2) n1 by (simp add: next_id_store_update)
    ultimately show ?thesis using e(1) f1 reply_created_not_format_error by simp
  qed
qed

text \<open>
  C7, as the code has it. For a command of an admin, \<open>addsignal_cmd\<close> answers with the
  format error exactly when the side (upper-cased, LONG when absent) is neither LONG nor
  SHORT, or \<open>float\<close> rejects a non-empty entry, a non-empty piece of \<open>targets\<close> or the stop.
  When it answers with the format error, the store is the one it was given and no
  exception leaves the handler. Otherwise a signal is filed under the next id and the
  counter advances; its targets are the converted non-empty pieces of \<open>targets\<close>, which
  is the empty list when \<open>targets\<close> is absent or empty: the handler has no test of it.
\<close>

theorem addsignal_validation:
  assumes user: "effective_user upd = Some uid" and msg: "message upd = Some text"
    and adm: "is_admin cfg uid"
    and kv: "kv = parse_kv_args (partition_tail CHR '' '' text)"
    and res: "addsignal_cmd cfg pfloat post upd st = (r, replies, st')"
  shows "(replies = [format_error_text] \<longleftrightarrow>
            (py_upper (kv_get kv ''side'' ''LONG'') \<noteq> ''LONG''
               \<and> py_upper (kv_get kv ''side'' ''LONG'') \<noteq> ''SHORT'')
            \<or> (\<exists>v. map_of kv ''entry'' = Some v \<and> v \<noteq> [] \<and> pfloat v = None)
            \<or> (\<exists>x \<in> set (split_on CHR '','' (kv_get kv ''targets'' [])). x \<noteq> [] \<and> pfloat x = None)
            \<or> (\<exists>v. map_of kv ''stop'' = Some v \<and> pfloat v = None))
         \<and> (replies = [format_error_text] \<longrightarrow> st' = st \<and> r = None)
         \<and> (replies \<noteq> [format_error_text] \<longrightarrow>
               next_id st' = next_id st + 1
               \<and> (\<exists>s. store_get st' (next_id st) = Some s
                      \<and> those (map pfloat (filter (\<lambda>x. x \<noteq> [])
                                 (split_on CHR '','' (kv_get kv ''targets'' [])))) = Some (targets s)))"
proof (cases "parse_signal_args pfloat kv")
  case None
  then have "addsignal_cmd cfg pfloat post upd st = (None, [format_error_text], st)"
    using addsignal_cmd_rejected [OF user msg adm] kv by simp
  then have "replies = [format_error_text]" "st' = st" "r = None" using res by simp_all
  then show ?thesis using None parse_signal_args_None_iff [of pfloat kv] by simp
next
  case (Some a)
  obtain v_symbol v_side v_entry v_targets v_stop v_note where
    a: "a = (v_symbol, v_side, v_entry, v_targets, v_stop, v_note)" by (cases a)
  have p: "parse_signal_args pfloat (parse_kv_args (partition_tail CHR '' '' text))
             = Some (v_symbol, v_side, v_entry, v_targets, v_stop, v_note)"
    using Some a kv by simp
  from addsignal_cmd_accepted [OF user msg adm p res] obtain s where
    n: "replies \<noteq> [format_error_text]" and i: "next_id st' = next_id st + 1"
    and g: "store_get st' (next_id st) = Some s" and t: "targets s = v_targets"
    by blast
  have th: "those (map pfloat (filter (\<lambda>x. x \<noteq> [])
                (split_on CHR '','' (kv_get kv ''targets'' [])))) = Some (targets s)"
    using parse_signal_args_Some [of pfloat kv] Some a t by simp
  have "\<not> ((py_upper (kv_get kv ''side'' ''LONG'') \<noteq> ''LONG''
               \<and> py_upper (kv_get kv ''side'' ''LONG'') \<noteq> ''SHORT'')
            \<or> (\<exists>v. map_of kv ''entry'' = Some v \<and> v \<noteq> [] \<and> pfloat v = None)
            \<or> (\<exists>x \<in> set (split_on CHR '','' (kv_get kv ''targets'' [])). x \<noteq> [] \<and> pfloat x = None)
            \<or> (\<exists>v. map_of kv ''stop'' = Some v \<and> pfloat v = None))"
    using parse_signal_args_None_iff [of pfloat kv] Some by simp
  then show ?thesis using n i g th by blast
qed

theorem addsignal_validation_witness:
  "effective_user upd_bad_stop = Some 8121424156
   \<and> is_admin cfg0 8121424156
   \<and> map_of (parse_kv_args (partition_tail CHR '' ''
         ''/addsignal symbol=eur/usd side=long entry=1.1050 targets=1.1100,1.1150 stop=abc''))
         ''stop'' = Some ''abc''
   \<and> float_tbl ''abc'' = None
   \<and> addsignal_cmd cfg0 float_tbl post0 upd_bad_stop store0 = (None, [format_error_text], store0)"
proof -
  define cmd where
    "cmd = ''/addsignal symbol=eur/usd side=long entry=1.1050 targets=1.1100,1.1150 stop=abc''"
  define kv where "kv = parse_kv_args (partition_tail CHR '' '' cmd)"
  define res where "res = addsignal_cmd cfg0 float_tbl post0 upd_bad_stop store0"
  have user: "effective_user upd_bad_stop = Some 8121424156" by (simp add: upd_bad_stop_def)
  have msg: "message upd_bad_stop = Some cmd" by (simp add: upd_bad_stop_def cmd_def)
  have adm: "is_admin cfg0 8121424156" by (simp add: is_admin_def cfg0_def)
  have r: "addsignal_cmd cfg0 float_tbl post0 upd_bad_stop store0
             = (fst res, fst (snd res), snd (snd res))" by (simp add: res_def)
  have st: "map_of kv ''stop'' = Some ''abc''" unfolding kv_def cmd_def by code_simp
  have fl: "float_tbl ''abc'' = None" by code_simp
  from addsignal_validation [OF user msg adm kv_def r] st fl
  have "fst (snd res) = [format_error_text]" by blast
  with addsignal_validation [OF user msg adm kv_def r]
  have "snd (snd res) = store0 \<and> fst res = None \<and> fst (snd res) = [format_error_text]" by blast
  then have "res = (None, [format_error_text], store0)" by (simp add: prod_eq_iff)
  then show ?thesis using user adm st fl by (simp add: res_def kv_def cmd_def)
qed

text \<open>
  The claim C7 as the specification states it fails on the code: the command
  \<open>/addsignal side=LONG\<close>, which names no targets, is accepted, and a signal with the
  empty targets list is filed under id 1.
\<close>

theorem addsignal_accepts_empty_targets_counterexample:
  "message upd_no_targets = Some ''/addsignal side=LONG''
   \<and> fst (snd (addsignal_cmd cfg0 float_tbl post0 upd_no_targets store0))
       = [''Signal #1 created and posted to channel.'']
   \<and> map (\<lambda>p. (fst p, targets (snd p)))
         (signals (snd (snd (addsignal_cmd cfg0 float_tbl post0 upd_no_targets store0)))) = [(1, [])]
   \<and> next_id store0 = 1
   \<and> next_id (snd (snd (addsignal_cmd cfg0 float_tbl post0 upd_no_targets store0))) = 2"
proof -
  have a: "message upd_no_targets = Some ''/addsignal side=LONG''" by (simp add: upd_no_targets_def)
  have b: "fst (snd (addsignal_cmd cfg0 float_tbl post0 upd_no_targets store0))
       = [''Signal #1 created and posted to channel.'']" by code_simp
  have c: "map (\<lambda>p. (fst p, targets (snd p)))
         (signals (snd (snd (addsignal_cmd cfg0 float_tbl post0 upd_no_targets store0)))) = [(1, [])]"
    by code_simp
  have d: "next_id store0 = 1" by (simp add: store0_def)
  have e: "next_id (snd (snd (addsignal_cmd cfg0 float_tbl post0 upd_no_targets store0))) = 2"
    by code_simp
  show ?thesis using a b c d e by blast
qed

text \<open>
  C9 fails on the code. Whenever \<open>addsignal_cmd\<close> creates a signal, the \<open>created_at\<close> of
  the record it files is the default computed once by the class body when the module was
  imported: the handler passes no \<open>created_at\<close> and reads no clock. Two signals created at
  different times in one process therefore carry the same string.
\<close>

theorem created_at_is_import_time:
  assumes user: "effective_user upd = Some uid" and msg: "message upd = Some text"
    and adm: "is_admin cfg uid"
    and res: "addsignal_cmd cfg pfloat post upd st = (r, replies, st')"
    and acc: "replies \<noteq> [format_error_text]"
  shows "\<exists>s. store_get st' (next_id st) = Some s \<and> sig_id s = next_id st
              \<and> created_at s = class_created_at cfg"
proof (cases "parse_signal_args pfloat (parse_kv_args (partition_tail CHR '' '' text))")
  case None
  then have "addsignal_cmd cfg pfloat post upd st = (None, [format_error_text], st)"
    using addsignal_cmd_rejected [OF user msg adm] by simp
  then show ?thesis using res acc by simp
next
  case (Some a)
  obtain v_symbol v_side v_entry v_targets v_stop v_note where
    a: "a = (v_symbol, v_side, v_entry, v_targets, v_stop, v_note)" by (cases a)
  from addsignal_cmd_accepted [OF user msg adm Some [unfolded a] res] show ?thesis by blast
qed

theorem created_at_is_import_time_witness:
  "map (\<lambda>p. (fst p, created_at (snd p)))
     (signals (snd (snd (addsignal_cmd cfg0 float_tbl post0 upd_no_targets
        (snd (snd (addsignal_cmd cfg0 float_tbl post0 upd_no_targets store0)))))))
     = [(1, ''2024-01-01T00:00:00+00:00''), (2, ''2024-01-01T00:00:00+00:00'')]
   \<and> class_created_at cfg0 = ''2024-01-01T00:00:00+00:00''
   \<and> (\<exists>s. store_get (snd (snd (addsignal_cmd cfg0 float_tbl post0 upd_no_targets
                (snd (snd (addsignal_cmd cfg0 float_tbl post0 upd_no_targets store0))))))
             2 = Some s
          \<and> created_at s = class_created_at cfg0)"
proof -
  define st1 where "st1 = snd (snd (addsignal_cmd cfg0 float_tbl post0 upd_no_targets store0))"
  define res where "res = addsignal_cmd cfg0 float_tbl post0 upd_no_targets st1"
  have user: "effective_user upd_no_targets = Some 8121424156" by (simp add: upd_no_targets_def)
  have msg: "message upd_no_targets = Some ''/addsignal side=LONG''"
    by (simp add: upd_no_targets_def)
  have adm: "is_admin cfg0 8121424156" by (simp add: is_admin_def cfg0_def)
  have r: "addsignal_cmd cfg0 float_tbl post0 upd_no_targets st1
             = (fst res, fst (snd res), snd (snd res))" by (simp add: res_def)
  have rep: "fst (snd res) = [''Signal #2 created and posted to channel.'']"
    unfolding res_def st1_def by code_simp
  have acc: "fst (snd res) \<noteq> [format_error_text]"
    unfolding rep by (simp add: format_error_text_def)
  have n: "next_id st1 = 2" unfolding st1_def by code_simp
  have l: "map (\<lambda>p. (fst p, created_at (snd p))) (signals (snd (snd res)))
     = [(1, ''2024-01-01T00:00:00+00:00''), (2, ''2024-01-01T00:00:00+00:00'')]"
    unfolding res_def st1_def by code_simp
  have c: "class_created_at cfg0 = ''2024-01-01T00:00:00+00:00''" by (simp add: cfg0_def)
  from created_at_is_import_time [OF user msg adm r acc] n
  have "\<exists>s. store_get (snd (snd res)) 2 = Some s \<and> created_at s = class_created_at cfg0"
    by auto
  then show ?thesis using l c by (simp add: res_def st1_def)
qed

end
